theory Spec2Isabelle
  imports Complex_Main "HOL-Library.Log_Nat"
begin

section \<open>Python string primitives\<close>

text \<open>
  The donation wizard (\<^verbatim>\<open>session06/mailroom.py\<close>) works on Python \<^verbatim>\<open>str\<close> values.  In
  this part they are modelled as \<^typ>\<open>string\<close>, a character being the code point of the
  same number, U+0000 to U+00FF.  White space is what \<^verbatim>\<open>str.isspace\<close> accepts in that
  range: codes 9-13, 28-32, U+0085 and U+00A0.  Letter case is modelled for the 52 ASCII
  letters: on ASCII text the functions below compute what the \<^verbatim>\<open>str\<close> methods compute; a
  character beyond ASCII is carried along as an uncased symbol.
\<close>

definition code :: "char \<Rightarrow> nat" where
  "code c = of_char c"

definition is_space :: "char \<Rightarrow> bool" where
  "is_space c =
     ((9 \<le> code c \<and> code c \<le> 13) \<or> (28 \<le> code c \<and> code c \<le> 32)
      \<or> code c = 133 \<or> code c = 160)"

definition is_upper :: "char \<Rightarrow> bool" where
  "is_upper c = (65 \<le> code c \<and> code c \<le> 90)"

definition is_lower :: "char \<Rightarrow> bool" where
  "is_lower c = (97 \<le> code c \<and> code c \<le> 122)"

definition is_cased :: "char \<Rightarrow> bool" where
  "is_cased c = (is_upper c \<or> is_lower c)"

definition to_upper :: "char \<Rightarrow> char" where
  "to_upper c = (if is_lower c then char_of (code c - 32) else c)"

definition to_lower :: "char \<Rightarrow> char" where
  "to_lower c = (if is_upper c then char_of (code c + 32) else c)"

text \<open>\<^verbatim>\<open>s.upper()\<close> and \<^verbatim>\<open>s.lower()\<close>.\<close>

definition py_upper :: "string \<Rightarrow> string" where
  "py_upper s = map to_upper s"

definition py_lower :: "string \<Rightarrow> string" where
  "py_lower s = map to_lower s"

text \<open>
  \<^verbatim>\<open>s.title()\<close>: a character is lower-cased when the character before it is cased and
  upper-cased otherwise; the flag is the casedness of the original character.
\<close>

fun title_from :: "bool \<Rightarrow> string \<Rightarrow> string" where
  "title_from prev [] = []"
| "title_from prev (c # cs) =
     (if prev then to_lower c else to_upper c) # title_from (is_cased c) cs"

definition py_title :: "string \<Rightarrow> string" where
  "py_title s = title_from False s"

text \<open>\<^verbatim>\<open>s.strip()\<close>: white space removed at both ends.\<close>

definition py_strip :: "string \<Rightarrow> string" where
  "py_strip s = rev (dropWhile is_space (rev (dropWhile is_space s)))"

text \<open>
  \<^verbatim>\<open>s.split(sep)\<close> for a one-character separator: the pieces between the separators,
  always at least one piece.
\<close>

fun py_split_on :: "char \<Rightarrow> string \<Rightarrow> string list" where
  "py_split_on sep [] = [[]]"
| "py_split_on sep (c # cs) =
     (let ps = py_split_on sep cs
      in if c = sep then [] # ps else (c # hd ps) # tl ps)"

text \<open>\<^verbatim>\<open>s.split()\<close>: the maximal runs of non-space characters.\<close>

function py_split :: "string \<Rightarrow> string list" where
  "py_split s =
     (case dropWhile is_space s of
        [] \<Rightarrow> []
      | c # cs \<Rightarrow>
          (c # takeWhile (\<lambda>x. \<not> is_space x) cs)
          # py_split (dropWhile (\<lambda>x. \<not> is_space x) cs))"
  by pat_completeness auto
termination
proof (relation "measure length")
  show "wf (measure length)" by simp
next
  fix s :: string and c cs
  assume a: "dropWhile is_space s = c # cs"
  have "length (dropWhile (\<lambda>x. \<not> is_space x) cs) \<le> length cs"
    by (rule length_dropWhile_le)
  moreover have "length (c # cs) \<le> length s"
    using length_dropWhile_le [of is_space s] a by simp
  ultimately show "(dropWhile (\<lambda>x. \<not> is_space x) cs, s) \<in> measure length"
    by simp
qed

declare py_split.simps [simp del]

text \<open>\<^verbatim>\<open>sep.join(xs)\<close>.\<close>

fun py_join :: "string \<Rightarrow> string list \<Rightarrow> string" where
  "py_join sep [] = []"
| "py_join sep [x] = x"
| "py_join sep (x # y # ys) = x @ sep @ py_join sep (y # ys)"

section \<open>Name parsing\<close>

datatype error = IndexError | ValueError | ZeroDivisionError

text \<open>The dictionary returned by \<^verbatim>\<open>parse_name\<close>, one field per key.\<close>

record name_parts =
  full_name :: string
  informal_name :: string
  suffix :: string
  last_name :: string
  first_name :: string

text \<open>
  \<^verbatim>\<open>parse_name(full_name)\<close>.  The bare \<^verbatim>\<open>except\<close> around the suffix turns the
  IndexError of \<^verbatim>\<open>split(",")[1]\<close> into the empty suffix.  \<^verbatim>\<open>informal_name.split()[-1]\<close>
  is outside any \<^verbatim>\<open>try\<close>: on an empty token list the IndexError leaves the function.
\<close>

definition parse_name :: "string \<Rightarrow> error + name_parts" where
  "parse_name raw =
     (let parts = py_split_on CHR '','' raw;
          sfx = (if 1 < length parts then py_upper (py_strip (parts ! 1)) else []);
          informal = py_title (py_strip (parts ! 0));
          toks = py_split informal
      in if toks = [] then Inl IndexError
         else
           let lname = py_title (py_strip (last toks));
               fname = py_title (py_join '' '' (butlast toks));
               new_full_name =
                 (if sfx \<noteq> [] then py_join '', '' [informal, sfx] else informal)
           in Inr \<lparr>full_name = new_full_name, informal_name = informal,
                   suffix = sfx, last_name = lname, first_name = fname\<rparr>)"

section \<open>Numbers\<close>

text \<open>
  A Python float is an IEEE 754 double.  A finite double is modelled by the rational
  number it denotes, \<open>Finite 0\<close> being the zero with the positive sign; the other values
  are the zero with the negative sign, the two infinities (the flag is the negative sign)
  and NaN.
\<close>

datatype pyfloat = Finite rat | MinusZero | Infinity bool | NaN

text \<open>Two to the power \<open>k\<close>, and the \<open>k\<close> with \<open>2 ^ k \<le> x < 2 ^ (k + 1)\<close> for a positive \<open>x\<close>.\<close>

definition pow2 :: "int \<Rightarrow> rat" where
  "pow2 k = (if 0 \<le> k then 2 ^ nat k else 1 / 2 ^ nat (- k))"

definition exponent2 :: "rat \<Rightarrow> int" where
  "exponent2 x =
     (let (p, q) = quotient_of x;
          k = bitlen p - bitlen q
      in if pow2 k \<le> x then k else k - 1)"

text \<open>The nearest integer, a tie going to the even one.\<close>

definition nearest_even :: "rat \<Rightarrow> int" where
  "nearest_even q =
     (let f = \<lfloor>q\<rfloor>; d = q - of_int f
      in if d < 1 / 2 then f
         else if 1 / 2 < d then f + 1
         else if even f then f else f + 1)"

text \<open>
  Rounding of a real number to a double, in the default rounding mode (to nearest, ties
  to even): the result is a multiple of the spacing of the doubles around \<open>x\<close>, which is
  \<open>2 ^ (e - 52)\<close> for \<open>2 ^ e \<le> \<bar>x\<bar> < 2 ^ (e + 1)\<close> and \<open>2 ^ - 1074\<close> below \<open>2 ^ - 1022\<close>.
  What rounds to \<open>2 ^ 1024\<close> or more becomes an infinity, what rounds to nothing a zero
  with the sign of \<open>x\<close>.
\<close>

definition round_double :: "rat \<Rightarrow> pyfloat" where
  "round_double x =
     (if x = 0 then Finite 0
      else
        let e = exponent2 \<bar>x\<bar>
        in if 1024 \<le> e then Infinity (x < 0)
           else
             let ulp = pow2 (max e (- 1022) - 52);
                 n = nearest_even (\<bar>x\<bar> / ulp)
             in if n = 0 then (if x < 0 then MinusZero else Finite 0)
                else if e = 1023 \<and> n = 2 ^ 53 then Infinity (x < 0)
                else Finite (if x < 0 then - (of_int n * ulp) else of_int n * ulp))"

text \<open>The unary minus of floats.\<close>

fun fl_neg :: "pyfloat \<Rightarrow> pyfloat" where
  "fl_neg (Finite x) = (if x = 0 then MinusZero else Finite (- x))"
| "fl_neg MinusZero = Finite 0"
| "fl_neg (Infinity a) = Infinity (\<not> a)"
| "fl_neg NaN = NaN"

text \<open>
  Addition and division by a list length, as \<^verbatim>\<open>+=\<close> and \<^verbatim>\<open>/\<close> in \<^verbatim>\<open>print_report\<close>: the
  exact result, rounded.  A sum that is exactly zero has the negative sign only when both
  terms have it.
\<close>

fun fl_add :: "pyfloat \<Rightarrow> pyfloat \<Rightarrow> pyfloat" where
  "fl_add NaN y = NaN"
| "fl_add (Finite x) NaN = NaN"
| "fl_add MinusZero NaN = NaN"
| "fl_add (Infinity a) NaN = NaN"
| "fl_add (Infinity a) (Infinity b) = (if a = b then Infinity a else NaN)"
| "fl_add (Infinity a) (Finite y) = Infinity a"
| "fl_add (Infinity a) MinusZero = Infinity a"
| "fl_add (Finite x) (Infinity b) = Infinity b"
| "fl_add MinusZero (Infinity b) = Infinity b"
| "fl_add MinusZero MinusZero = MinusZero"
| "fl_add MinusZero (Finite y) = Finite y"
| "fl_add (Finite x) MinusZero = Finite x"
| "fl_add (Finite x) (Finite y) = round_double (x + y)"

fun fl_div :: "pyfloat \<Rightarrow> nat \<Rightarrow> error + pyfloat" where
  "fl_div x 0 = Inl ZeroDivisionError"
| "fl_div (Finite x) (Suc n) = Inr (round_double (x / of_nat (Suc n)))"
| "fl_div MinusZero (Suc n) = Inr MinusZero"
| "fl_div (Infinity a) (Suc n) = Inr (Infinity a)"
| "fl_div NaN (Suc n) = Inr NaN"

subsection \<open>\<^verbatim>\<open>float(str)\<close>\<close>

definition is_digit :: "char \<Rightarrow> bool" where
  "is_digit c = (48 \<le> code c \<and> code c \<le> 57)"

text \<open>
  The white space that \<^verbatim>\<open>float\<close> skips around a literal: codes 9-13 and 32, and the
  white space beyond ASCII (U+0085 and U+00A0 here), which \<^verbatim>\<open>float\<close> turns into blanks
  first.  Codes 28-31 are white space for \<^verbatim>\<open>strip\<close> but not for \<^verbatim>\<open>float\<close>.
\<close>

definition is_float_space :: "char \<Rightarrow> bool" where
  "is_float_space c =
     ((9 \<le> code c \<and> code c \<le> 13) \<or> code c = 32 \<or> code c = 133 \<or> code c = 160)"

text \<open>A digit part: digits, with single underscores allowed between two digits.\<close>

fun digitpart_ok :: "string \<Rightarrow> bool" where
  "digitpart_ok [] = False"
| "digitpart_ok [c] = is_digit c"
| "digitpart_ok (c # d # r) =
     (is_digit c \<and> (if d = CHR ''_'' then digitpart_ok r else digitpart_ok (d # r)))"

definition digits_val :: "string \<Rightarrow> int" where
  "digits_val s = foldl (\<lambda>n c. 10 * n + (of_char c - 48)) 0 (filter is_digit s)"

text \<open>Sign and magnitude of an optionally signed literal.\<close>

definition split_sign :: "string \<Rightarrow> bool \<times> string" where
  "split_sign s =
     (case s of
        [] \<Rightarrow> (False, [])
      | c # cs \<Rightarrow>
          if c = CHR ''-'' then (True, cs)
          else if c = CHR ''+'' then (False, cs)
          else (False, s))"

definition is_exp_mark :: "char \<Rightarrow> bool" where
  "is_exp_mark c = (c = CHR ''e'' \<or> c = CHR ''E'')"

text \<open>
  The exponent of a literal: absent (\<open>Some 0\<close>), a signed digit part, or malformed
  (\<open>None\<close>).
\<close>

definition parse_exponent :: "string \<Rightarrow> int option" where
  "parse_exponent s =
     (case s of
        [] \<Rightarrow> Some 0
      | _ # es \<Rightarrow>
          (let (neg, ds) = split_sign es
           in if digitpart_ok ds
              then Some (if neg then - digits_val ds else digits_val ds)
              else None))"

text \<open>
  The mantissa \<open>digits [. [digits]]\<close> or \<open>. digits\<close>: its digits read as one number,
  and how many of them follow the point.
\<close>

definition parse_mantissa :: "string \<Rightarrow> (int \<times> nat) option" where
  "parse_mantissa s =
     (let ip = takeWhile (\<lambda>c. c \<noteq> CHR ''.'') s;
          fr = dropWhile (\<lambda>c. c \<noteq> CHR ''.'') s
      in case fr of
           [] \<Rightarrow> (if digitpart_ok ip then Some (digits_val ip, 0) else None)
         | _ # fp \<Rightarrow>
             if (digitpart_ok ip \<and> (fp = [] \<or> digitpart_ok fp))
                \<or> (ip = [] \<and> digitpart_ok fp)
             then Some (digits_val (ip @ fp), length (filter is_digit fp))
             else None)"

definition scale10 :: "rat \<Rightarrow> int \<Rightarrow> rat" where
  "scale10 x e = (if 0 \<le> e then x * 10 ^ nat e else x / 10 ^ nat (- e))"

text \<open>
  The literal that \<^verbatim>\<open>float(s)\<close> reads: surrounding white space is skipped, then an
  optional sign and \<^verbatim>\<open>inf\<close>, \<^verbatim>\<open>infinity\<close>, \<^verbatim>\<open>nan\<close> (in any letter case) or a decimal
  literal with an optional exponent, given by its digits \<open>m\<close> and decimal exponent \<open>e\<close>
  (the value is \<open>m\<close> times ten to the \<open>e\<close>).
\<close>

datatype float_literal = Lit_inf bool | Lit_nan | Lit_dec bool int int | Lit_bad

definition scan_float :: "string \<Rightarrow> float_literal" where
  "scan_float s =
     (let t = rev (dropWhile is_float_space (rev (dropWhile is_float_space s)));
          (neg, body) = split_sign t
      in if py_lower body = ''inf'' \<or> py_lower body = ''infinity'' then Lit_inf neg
         else if py_lower body = ''nan'' then Lit_nan
         else
           (case (parse_mantissa (takeWhile (\<lambda>c. \<not> is_exp_mark c) body),
                  parse_exponent (dropWhile (\<lambda>c. \<not> is_exp_mark c) body)) of
              (Some (m, k), Some e) \<Rightarrow> Lit_dec neg m (e - int k)
            | _ \<Rightarrow> Lit_bad))"

text \<open>
  \<^verbatim>\<open>float(s)\<close>: the double nearest to the value of the literal, with the sign of the
  literal; anything that is not a literal raises ValueError.
\<close>

definition py_float :: "string \<Rightarrow> error + pyfloat" where
  "py_float s =
     (case scan_float s of
        Lit_inf neg \<Rightarrow> Inr (Infinity neg)
      | Lit_nan \<Rightarrow> Inr NaN
      | Lit_dec neg m e \<Rightarrow>
          (let v = round_double (scale10 (of_int m) e)
           in Inr (if neg then fl_neg v else v))
      | Lit_bad \<Rightarrow> Inl ValueError)"

subsection \<open>Format specifications\<close>

definition digit_char :: "nat \<Rightarrow> char" where
  "digit_char n = char_of (48 + n)"

fun digits_of :: "nat \<Rightarrow> string" where
  "digits_of n =
     (if n < 10 then [digit_char n] else digits_of (n div 10) @ [digit_char (n mod 10)])"

declare digits_of.simps [simp del]

definition rjust :: "nat \<Rightarrow> string \<Rightarrow> string" where
  "rjust w s = replicate (w - length s) CHR '' '' @ s"

definition ljust :: "nat \<Rightarrow> string \<Rightarrow> string" where
  "ljust w s = s @ replicate (w - length s) CHR '' ''"

text \<open>\<^verbatim>\<open>{:05d}\<close> on a list index.\<close>

definition fmt_05d :: "nat \<Rightarrow> string" where
  "fmt_05d n = replicate (5 - length (digits_of n)) CHR ''0'' @ digits_of n"

text \<open>Thousands separators, inserted into the reversed digits.\<close>

fun group3 :: "string \<Rightarrow> string" where
  "group3 (a # b # c # d # r) = a # b # c # CHR '','' # group3 (d # r)"
| "group3 r = r"

definition round_half_even :: "rat \<Rightarrow> nat" where
  "round_half_even q =
     (let f = nat \<lfloor>q\<rfloor>; d = q - of_int \<lfloor>q\<rfloor>
      in if d < 1 / 2 then f
         else if 1 / 2 < d then Suc f
         else if even f then f else Suc f)"

text \<open>A number of hundredths with two decimals and thousands separators.\<close>

definition fmt_cents :: "bool \<Rightarrow> nat \<Rightarrow> string" where
  "fmt_cents neg cents =
     (if neg then ''-'' else [])
     @ rev (group3 (rev (digits_of (cents div 100))))
     @ ''.'' @ [digit_char (cents mod 100 div 10), digit_char (cents mod 10)]"

text \<open>\<^verbatim>\<open>{:W,.2f}\<close>: two decimals, thousands separators, right-aligned in \<open>W\<close> columns.\<close>

definition fmt_money :: "nat \<Rightarrow> pyfloat \<Rightarrow> string" where
  "fmt_money w x =
     rjust w
       (case x of
          Finite r \<Rightarrow> fmt_cents (r < 0) (round_half_even (\<bar>r\<bar> * 100))
        | MinusZero \<Rightarrow> fmt_cents True 0
        | Infinity neg \<Rightarrow> (if neg then ''-inf'' else ''inf'')
        | NaN \<Rightarrow> ''nan'')"

text \<open>\<^verbatim>\<open>{:9.0f}\<close> on a list length.\<close>

definition fmt_count :: "nat \<Rightarrow> string" where
  "fmt_count n = rjust 9 (digits_of n)"

section \<open>Donors and the program state\<close>

record donation =
  amount :: pyfloat
  date :: string

text \<open>
  A donor dictionary as \<^verbatim>\<open>thank_you_entry\<close> builds it: the five keys of the parsed
  name (\<^verbatim>\<open>**current_donor\<close>) and \<^verbatim>\<open>created\<close>, \<^verbatim>\<open>user_id\<close>, \<^verbatim>\<open>donations\<close>.
\<close>

record donor = name_parts +
  created :: string
  user_id :: string
  donations :: "donation list"

text \<open>
  The module-level list \<^verbatim>\<open>donors\<close>, the lines still to be typed at the terminal, the
  arguments of the \<^verbatim>\<open>print\<close> calls made so far (the prompts of \<^verbatim>\<open>input\<close> are not
  recorded), and the number of \<^verbatim>\<open>datetime.utcnow()\<close> readings made so far.
\<close>

record state =
  donors :: "donor list"
  stdin :: "string list"
  stdout :: "string list"
  clock :: nat

text \<open>
  What the program takes from outside: the ISO text of the date and of the time at the
  \<open>k\<close>-th clock reading, and \<^verbatim>\<open>hashlib.md5(s.encode()).hexdigest()\<close>.
\<close>

record env =
  utc_date :: "nat \<Rightarrow> string"
  utc_time :: "nat \<Rightarrow> string"
  md5_hexdigest :: "string \<Rightarrow> string"

text \<open>
  How a call ends: it returns a value, it is still waiting at a prompt when the typed
  lines run out, or an exception leaves it.
\<close>

datatype 'a outcome = Returned 'a | Pending | Raised error

definition nl :: string where
  "nl = [CHR 0x0A]"

definition emit :: "string \<Rightarrow> state \<Rightarrow> state" where
  "emit line st = st\<lparr>stdout := stdout st @ [line]\<rparr>"

text \<open>\<^verbatim>\<open>print_lines(lines)\<close>.\<close>

fun print_lines :: "nat \<Rightarrow> state \<Rightarrow> state" where
  "print_lines 0 st = st"
| "print_lines (Suc n) st = print_lines n (emit [] st)"

text \<open>\<^verbatim>\<open>safe_input\<close>: the typed line, stripped.\<close>

definition safe_input :: "string \<Rightarrow> string" where
  "safe_input raw = py_strip raw"

section \<open>The report\<close>

definition report_header :: string where
  "report_header =
     ljust 5 ''ID'' @ '' | '' @ ljust 20 ''Donor Name'' @ '' | ''
     @ ljust 14 ''Total Given'' @ '' | '' @ ljust 9 ''Num Gifts'' @ '' | ''
     @ ljust 12 ''Average Gift''"

definition report_rule :: string where
  "report_rule = replicate 72 CHR ''-''"

text \<open>The inner loop: \<^verbatim>\<open>total_donations = 0\<close>, then \<^verbatim>\<open>+=\<close> over the donations.\<close>

definition total_donations :: "donor \<Rightarrow> pyfloat" where
  "total_donations d = foldl fl_add (Finite 0) (map amount (donations d))"

text \<open>The format string of one row.\<close>

definition report_row :: "nat \<Rightarrow> string \<Rightarrow> pyfloat \<Rightarrow> nat \<Rightarrow> pyfloat \<Rightarrow> string" where
  "report_row donor_index name total_given num average =
     fmt_05d donor_index @ ''   '' @ ljust 20 name @ ''  $'' @ fmt_money 14 total_given
     @ ''   '' @ fmt_count num @ ''  $'' @ fmt_money 12 average"

text \<open>
  The loop over \<^verbatim>\<open>enumerate(donors)\<close>.  The division raises ZeroDivisionError for a donor
  without donations; the rows printed before stay printed.
\<close>

fun report_rows :: "nat \<Rightarrow> donor list \<Rightarrow> state \<Rightarrow> unit outcome \<times> state" where
  "report_rows donor_index [] st = (Returned (), st)"
| "report_rows donor_index (d # ds) st =
     (let num_donations = length (donations d);
          total_given = total_donations d
      in case fl_div total_given num_donations of
           Inl e \<Rightarrow> (Raised e, st)
         | Inr average_donation \<Rightarrow>
             report_rows (Suc donor_index) ds
               (emit (report_row donor_index (full_name d) total_given num_donations
                        average_donation) st))"

definition print_report :: "state \<Rightarrow> unit outcome \<times> state" where
  "print_report st =
     report_rows 0 (donors st) (emit report_rule (emit report_header (print_lines 2 st)))"

section \<open>Entering a donation\<close>

definition amount_menu :: "name_parts \<Rightarrow> string" where
  "amount_menu current_donor =
     nl
     @ ''GIFT ENTRY (ammount)'' @ nl
     @ ''-----------------------'' @ nl
     @ nl
     @ ''Enter the numeric amount '' @ informal_name current_donor @ '' has donated or'' @ nl
     @ ''(q)uit to return to cancel the donation and'' @ nl
     @ ''return to the previous menu.'' @ nl
     @ nl"

definition not_numeric_msg :: string where
  "not_numeric_msg = ''The value must be numeric.  Please try again or (q)uit.''"

text \<open>
  \<^verbatim>\<open>get_donation_amount\<close>.  \<^verbatim>\<open>amount\<close> is still 0 whenever the loop condition is
  tested, since a successful \<^verbatim>\<open>float\<close> returns at once: the loop repeats exactly after a
  ValueError.  The result is \<open>None\<close> for a cancelled entry.
\<close>

function get_donation_amount :: "name_parts \<Rightarrow> state \<Rightarrow> pyfloat option outcome \<times> state" where
  "get_donation_amount current_donor st =
     (let st1 = emit (amount_menu current_donor) (print_lines 2 st)
      in case stdin st1 of
           [] \<Rightarrow> (Pending, st1)
         | raw # rest \<Rightarrow>
             (let selection = safe_input raw;
                  st2 = st1\<lparr>stdin := rest\<rparr>
              in if py_lower selection \<in> set [''q'', ''quit''] then (Returned None, st2)
                 else
                   (case py_float selection of
                      Inr parsed_amount \<Rightarrow> (Returned (Some parsed_amount), st2)
                    | Inl _ \<Rightarrow>
                        get_donation_amount current_donor
                          (emit not_numeric_msg (print_lines 2 st2)))))"
  by pat_completeness auto

lemma stdin_emit [simp]: "stdin (emit line st) = stdin st"
  by (simp add: emit_def)

lemma stdin_print_lines [simp]: "stdin (print_lines n st) = stdin st"
  by (induction n arbitrary: st) simp_all

termination get_donation_amount
  by (relation "measure (\<lambda>(current_donor, st). length (stdin st))") simp_all

declare get_donation_amount.simps [simp del]

definition letter :: "name_parts \<Rightarrow> string \<Rightarrow> string" where
  "letter current_donor hint =
     nl
     @ ''Dearest '' @ full_name current_donor @ '','' @ nl
     @ nl
     @ ''We are are grateful for the generious donation on the behalf of'' @ nl
     @ ''the '' @ last_name current_donor @ '' family.'' @ nl
     @ nl
     @ ''It is through the donations of '' @ hint @ '' patrions like yourself that'' @ nl
     @ ''allows us to continue to support the community.'' @ nl
     @ nl
     @ ''Sincerely,'' @ nl
     @ nl
     @ ''Tux Humboldt'' @ nl
     @ ''Shark Loss Prevention Institue'' @ nl"

text \<open>\<^verbatim>\<open>print_thank_you\<close> to the screen.\<close>

definition print_thank_you :: "name_parts \<Rightarrow> string \<Rightarrow> state \<Rightarrow> state" where
  "print_thank_you current_donor hint st =
     print_lines 2
       (emit (replicate 80 CHR ''-'')
          (emit (letter current_donor hint)
             (emit (replicate 80 CHR ''-'') (print_lines 2 st))))"

definition entry_menu :: string where
  "entry_menu =
     nl
     @ ''DONATION ENTRY (Donor Name)'' @ nl
     @ ''---------------------------'' @ nl
     @ nl
     @ ''Enter the full name (first last) of the donor'' @ nl
     @ ''for whom you would like to enter a donation,'' @ nl
     @ ''(l)ist to see a list of the existing donors, or'' @ nl
     @ ''(q)uit to return to the previous menu.'' @ nl
     @ nl"

definition need_both_names_msg :: string where
  "need_both_names_msg = ''You must enter both a first and last name.''"

definition cancelled_msg :: string where
  "cancelled_msg = ''Donation cancelled!''"

text \<open>The name keys of an existing donor, as read after \<^verbatim>\<open>current_donor=existing_donor\<close>.\<close>

definition as_current :: "donor \<Rightarrow> name_parts" where
  "as_current d =
     \<lparr>full_name = full_name d, informal_name = informal_name d, suffix = suffix d,
      last_name = last_name d, first_name = first_name d\<rparr>"

text \<open>The comparison of line 233.\<close>

definition name_matches :: "donor \<Rightarrow> name_parts \<Rightarrow> bool" where
  "name_matches existing_donor current_donor =
     (let existing_full_name = first_name existing_donor @ '' '' @ last_name existing_donor
      in py_strip (py_lower existing_full_name)
         = py_strip (py_lower (full_name current_donor)))"

text \<open>
  The loop of lines 229-236 over \<^verbatim>\<open>enumerate(donors)\<close>, from index \<open>donor_index\<close> on.
  There is no \<^verbatim>\<open>break\<close>: every donor is compared, and a match rebinds both
  \<^verbatim>\<open>current_donor\<close> and \<^verbatim>\<open>donor_id\<close>.
\<close>

fun match_existing ::
  "donor list \<Rightarrow> nat \<Rightarrow> name_parts \<Rightarrow> nat option \<Rightarrow> name_parts \<times> nat option" where
  "match_existing [] donor_index current_donor donor_id = (current_donor, donor_id)"
| "match_existing (existing_donor # ds) donor_index current_donor donor_id =
     (if name_matches existing_donor current_donor
      then match_existing ds (Suc donor_index) (as_current existing_donor) (Some donor_index)
      else match_existing ds (Suc donor_index) current_donor donor_id)"

text \<open>\<^verbatim>\<open>donors[donor_id]["donations"].append(...)\<close>.\<close>

definition append_donation :: "nat \<Rightarrow> donation \<Rightarrow> donor list \<Rightarrow> donor list" where
  "append_donation donor_id dn ds =
     ds[donor_id := (ds ! donor_id)\<lparr>donations := donations (ds ! donor_id) @ [dn]\<rparr>]"

text \<open>
  One pass through the body of the \<^verbatim>\<open>while True\<close> loop of \<^verbatim>\<open>thank_you_entry\<close>: either
  the loop goes round again (\<^verbatim>\<open>continue\<close>, or the end of the body after the thank-you
  letter), or the function ends.
\<close>

datatype flow = Continue | Stop "unit outcome"

definition thank_you_body :: "env \<Rightarrow> state \<Rightarrow> flow \<times> state" where
  "thank_you_body e st =
     (let st1 = emit entry_menu (print_lines 2 st)
      in case stdin st1 of
           [] \<Rightarrow> (Stop Pending, st1)
         | raw # rest \<Rightarrow>
             (let selection = safe_input raw;
                  st2 = st1\<lparr>stdin := rest\<rparr>
              in if py_lower selection \<in> set [''q'', ''quit''] then (Stop (Returned ()), st2)
                 else if py_lower selection \<in> set [''l'', ''list''] then
                   (case print_report st2 of
                      (Returned _, st3) \<Rightarrow> (Continue, st3)
                    | (r, st3) \<Rightarrow> (Stop r, st3))
                 else if selection = [] then (Continue, st2)
                 else
                   (case parse_name selection of
                      Inl err \<Rightarrow> (Stop (Raised err), st2)
                    | Inr parsed \<Rightarrow>
                        if first_name parsed = [] \<or> last_name parsed = []
                        then (Continue, emit need_both_names_msg st2)
                        else
                          (let (current_donor, donor_id) =
                                 match_existing (donors st2) 0 parsed None
                           in case get_donation_amount current_donor st2 of
                                (Pending, st3) \<Rightarrow> (Stop Pending, st3)
                              | (Raised err, st3) \<Rightarrow> (Stop (Raised err), st3)
                              | (Returned None, st3) \<Rightarrow>
                                  (Stop (Returned ()), emit cancelled_msg (print_lines 2 st3))
                              | (Returned (Some new_donation), st3) \<Rightarrow>
                                  (let today = utc_date e (clock st3) @ ''Z'';
                                       st4 = st3\<lparr>clock := Suc (clock st3)\<rparr>;
                                       dn = \<lparr>amount = new_donation, date = today\<rparr>
                                   in case donor_id of
                                        Some i \<Rightarrow>
                                          (Continue,
                                           print_thank_you current_donor ''returning''
                                             (st4\<lparr>donors := append_donation i dn (donors st4)\<rparr>))
                                      | None \<Rightarrow>
                                          (let now = utc_time e (clock st4) @ ''Z'';
                                               st5 = st4\<lparr>clock := Suc (clock st4)\<rparr>;
                                               id_source = full_name current_donor @ now;
                                               uid = md5_hexdigest e id_source;
                                               new_donor =
                                                 \<lparr>full_name = full_name current_donor,
                                                  informal_name = informal_name current_donor,
                                                  suffix = suffix current_donor,
                                                  last_name = last_name current_donor,
                                                  first_name = first_name current_donor,
                                                  created = now, user_id = uid,
                                                  donations = [dn]\<rparr>
                                           in (Continue,
                                               print_thank_you current_donor ''new''
                                                 (st5\<lparr>donors := donors st5 @ [new_donor]\<rparr>))))))))"

lemma stdin_report_rows [simp]: "stdin (snd (report_rows i ds st)) = stdin st"
  by (induction ds arbitrary: i st) (simp_all add: Let_def split: sum.splits)

lemma stdin_print_report [simp]: "stdin (snd (print_report st)) = stdin st"
  by (simp add: print_report_def)

lemma stdin_print_thank_you [simp]: "stdin (print_thank_you c h st) = stdin st"
  by (simp add: print_thank_you_def)

lemma stdin_get_donation_amount:
  "length (stdin (snd (get_donation_amount c st))) \<le> length (stdin st)"
proof (induction c st rule: get_donation_amount.induct)
  case (1 c st)
  show ?case
  proof (cases "stdin st")
    case Nil
    then show ?thesis
      by (subst get_donation_amount.simps) (simp add: Let_def)
  next
    case (Cons raw rest)
    show ?thesis
    proof (cases "py_lower (safe_input raw) \<in> set [''q'', ''quit'']")
      case True
      with Cons show ?thesis
        by (subst get_donation_amount.simps) (simp add: Let_def)
    next
      case False
      show ?thesis
      proof (cases "py_float (safe_input raw)")
        case (Inr a)
        with Cons False show ?thesis
          by (subst get_donation_amount.simps) (simp add: Let_def)
      next
        case (Inl x)
        have "length (stdin (snd (get_donation_amount c
                 (emit not_numeric_msg (print_lines 2
                    (emit (amount_menu c) (print_lines 2 st)\<lparr>stdin := rest\<rparr>))))))
              \<le> length rest"
          using "1.IH" [OF refl _ refl refl False Inl] Cons by simp
        with Cons False Inl show ?thesis
          by (subst get_donation_amount.simps) (simp add: Let_def)
      qed
    qed
  qed
qed

lemma get_donation_amount_stdin:
  "get_donation_amount c st = (r, st') \<Longrightarrow> length (stdin st') \<le> length (stdin st)"
  using stdin_get_donation_amount [of c st] by simp

lemma print_report_stdin: "print_report st = (r, st') \<Longrightarrow> stdin st' = stdin st"
  using stdin_print_report [of st] by simp

lemma thank_you_body_empty:
  "stdin st = [] \<Longrightarrow> fst (thank_you_body e st) = Stop Pending"
  by (simp add: thank_you_body_def Let_def)

lemma thank_you_body_consumes:
  assumes "stdin st = raw # rest"
  shows "length (stdin (snd (thank_you_body e st))) \<le> length rest"
  using assms
  by (auto simp: thank_you_body_def Let_def
      split: if_splits sum.splits prod.splits outcome.splits option.splits
      dest!: get_donation_amount_stdin print_report_stdin)

text \<open>\<^verbatim>\<open>thank_you_entry\<close>: the body, repeated until it ends the function.\<close>

function thank_you_entry :: "env \<Rightarrow> state \<Rightarrow> unit outcome \<times> state" where
  "thank_you_entry e st =
     (case thank_you_body e st of
        (Stop r, st') \<Rightarrow> (r, st')
      | (Continue, st') \<Rightarrow> thank_you_entry e st')"
  by pat_completeness auto
lemma thank_you_body_shrinks:
  assumes "thank_you_body e st = (Continue, st')"
  shows "length (stdin st') < length (stdin st)"
proof (cases "stdin st")
  case Nil
  then show ?thesis using thank_you_body_empty [of st e] assms by simp
next
  case (Cons raw rest)
  then show ?thesis using thank_you_body_consumes [OF Cons, of e] assms by simp
qed

termination thank_you_entry
  by (relation "measure (\<lambda>(e, st). length (stdin st))")
     (auto dest: thank_you_body_shrinks [OF sym])

declare thank_you_entry.simps [simp del]

text \<open>
  A concrete environment and start state for evaluating the program on typed input.  The
  clock texts and the digest function are placeholders: no result below depends on them.
\<close>

definition sample_env :: env where
  "sample_env =
     \<lparr>utc_date = (\<lambda>k. ''2017-02-14''),
      utc_time = (\<lambda>k. ''2017-02-14T10:00:0'' @ digits_of k),
      md5_hexdigest = (\<lambda>s. ''md5 of '' @ s)\<rparr>"

definition start :: "donor list \<Rightarrow> string list \<Rightarrow> state" where
  "start ds typed = \<lparr>donors = ds, stdin = typed, stdout = [], clock = 0\<rparr>"

text \<open>
  The two intermediate values of \<^verbatim>\<open>parse_name\<close>: \<^verbatim>\<open>informal_name\<close> and \<^verbatim>\<open>suffix\<close> as
  functions of the input.
\<close>

definition informal_of :: "string \<Rightarrow> string" where
  "informal_of raw = py_title (py_strip (py_split_on CHR '','' raw ! 0))"

definition suffix_of :: "string \<Rightarrow> string" where
  "suffix_of raw =
     (let parts = py_split_on CHR '','' raw
      in if 1 < length parts then py_upper (py_strip (parts ! 1)) else [])"

text \<open>A string without white space at either end.\<close>

definition stripped :: "string \<Rightarrow> bool" where
  "stripped s = (s = [] \<or> (\<not> is_space (hd s) \<and> \<not> is_space (last s)))"

text \<open>The state once a prompt has been shown and the next typed line taken.\<close>

definition prompted_name :: "state \<Rightarrow> string list \<Rightarrow> state" where
  "prompted_name st rest = (emit entry_menu (print_lines 2 st))\<lparr>stdin := rest\<rparr>"

definition prompted_amount :: "name_parts \<Rightarrow> state \<Rightarrow> string list \<Rightarrow> state" where
  "prompted_amount current_donor st rest =
     (emit (amount_menu current_donor) (print_lines 2 st))\<lparr>stdin := rest\<rparr>"

text \<open>What one completed entry prints: both menus and the thank-you letter.\<close>

definition entry_output :: "name_parts \<Rightarrow> string \<Rightarrow> string list" where
  "entry_output current_donor hint =
     [[], [], entry_menu, [], [], amount_menu current_donor,
      [], [], replicate 80 CHR ''-'', letter current_donor hint, replicate 80 CHR ''-'', [], []]"

text \<open>The parsed form of the name \<^verbatim>\<open>Jane Doe\<close>, used in the examples.\<close>

definition jane_doe :: name_parts where
  "jane_doe = \<lparr>full_name = ''Jane Doe'', informal_name = ''Jane Doe'', suffix = [],
               last_name = ''Doe'', first_name = ''Jane''\<rparr>"

text \<open>
  Two parsed names and the store that the lines \<^verbatim>\<open>John Smith\<close>, \<^verbatim>\<open>10\<close>,
  \<^verbatim>\<open>John Smith, Jr\<close>, \<^verbatim>\<open>20\<close> leave behind when typed on an empty store.
\<close>

definition john_smith :: name_parts where
  "john_smith = \<lparr>full_name = ''John Smith'', informal_name = ''John Smith'', suffix = [],
                 last_name = ''Smith'', first_name = ''John''\<rparr>"

definition john_smith_jr :: name_parts where
  "john_smith_jr = \<lparr>full_name = ''John Smith, JR'', informal_name = ''John Smith'',
                    suffix = ''JR'', last_name = ''Smith'', first_name = ''John''\<rparr>"

definition two_smiths :: "donor list" where
  "two_smiths =
     [\<lparr>full_name = ''John Smith'', informal_name = ''John Smith'', suffix = [],
       last_name = ''Smith'', first_name = ''John'',
       created = ''2017-02-14T10:00:01Z'',
       user_id = ''md5 of John Smith2017-02-14T10:00:01Z'',
       donations = [\<lparr>amount = Finite 10, date = ''2017-02-14Z''\<rparr>]\<rparr>,
      \<lparr>full_name = ''John Smith, JR'', informal_name = ''John Smith'', suffix = ''JR'',
       last_name = ''Smith'', first_name = ''John'',
       created = ''2017-02-14T10:00:03Z'',
       user_id = ''md5 of John Smith, JR2017-02-14T10:00:03Z'',
       donations = [\<lparr>amount = Finite 20, date = ''2017-02-14Z''\<rparr>]\<rparr>]"

text \<open>
  The store that the lines \<^verbatim>\<open>John Smith, Jr\<close>, \<^verbatim>\<open>10\<close>, \<^verbatim>\<open>John Smith, Jr\<close>, \<^verbatim>\<open>20\<close>
  leave behind when typed on an empty store.
\<close>

definition two_juniors :: "donor list" where
  "two_juniors =
     [\<lparr>full_name = ''John Smith, JR'', informal_name = ''John Smith'', suffix = ''JR'',
       last_name = ''Smith'', first_name = ''John'',
       created = ''2017-02-14T10:00:01Z'',
       user_id = ''md5 of John Smith, JR2017-02-14T10:00:01Z'',
       donations = [\<lparr>amount = Finite 10, date = ''2017-02-14Z''\<rparr>]\<rparr>,
      \<lparr>full_name = ''John Smith, JR'', informal_name = ''John Smith'', suffix = ''JR'',
       last_name = ''Smith'', first_name = ''John'',
       created = ''2017-02-14T10:00:03Z'',
       user_id = ''md5 of John Smith, JR2017-02-14T10:00:03Z'',
       donations = [\<lparr>amount = Finite 20, date = ''2017-02-14Z''\<rparr>]\<rparr>]"


section \<open>Invalid names\<close>

text \<open>
  Claim C3.  A non-empty line typed at the name prompt never makes name parsing or the
  emptiness check raise.  The code does not keep this: for the line \<^verbatim>\<open>, Jr\<close>, whose part
  before the comma is empty, \<^verbatim>\<open>informal_name.split()[-1]\<close> raises IndexError inside
  \<^verbatim>\<open>parse_name\<close>, before the check of line 223 is reached, and the exception leaves
  \<^verbatim>\<open>thank_you_entry\<close>.
\<close>

theorem empty_before_comma_raises:
  "parse_name '', Jr'' = Inl IndexError
   \<and> fst (thank_you_entry sample_env (start [] ['', Jr''])) = Raised IndexError
   \<and> donors (snd (thank_you_entry sample_env (start [] ['', Jr'']))) = []"
  by code_simp

section \<open>Facts about characters and strings\<close>

lemma code_char_of [simp]: "code (char_of n) = n mod 256"
  by (simp add: code_def)

lemma char_of_code [simp]: "char_of (code c) = c"
  by (simp add: code_def)

lemma code_inj: "code a = code b \<Longrightarrow> a = b"
  by (metis char_of_code)

lemma code_upper: "is_lower c \<Longrightarrow> code (to_upper c) = code c - 32"
proof -
  assume a: "is_lower c"
  then have "code c - 32 < 256" unfolding is_lower_def by arith
  with a show ?thesis by (simp add: to_upper_def)
qed

lemma code_lower: "is_upper c \<Longrightarrow> code (to_lower c) = code c + 32"
proof -
  assume a: "is_upper c"
  then have "code c + 32 < 256" unfolding is_upper_def by arith
  with a show ?thesis by (simp add: to_lower_def)
qed

lemma to_upper_fix: "\<not> is_lower c \<Longrightarrow> to_upper c = c"
  by (simp add: to_upper_def)

lemma to_lower_fix: "\<not> is_upper c \<Longrightarrow> to_lower c = c"
  by (simp add: to_lower_def)

lemma is_lower_to_upper [simp]: "is_lower (to_upper c) = False"
proof (cases "is_lower c")
  case True
  then have "code (to_upper c) = code c - 32" "code c \<le> 122"
    by (simp_all add: code_upper is_lower_def)
  then have "\<not> is_lower (to_upper c)" unfolding is_lower_def [of "to_upper c"] by arith
  then show ?thesis by simp
next
  case False
  then show ?thesis by (simp add: to_upper_fix)
qed

lemma is_upper_to_lower [simp]: "is_upper (to_lower c) = False"
proof (cases "is_upper c")
  case True
  then have "code (to_lower c) = code c + 32" "65 \<le> code c"
    by (simp_all add: code_lower is_upper_def)
  then have "\<not> is_upper (to_lower c)" unfolding is_upper_def [of "to_lower c"] by arith
  then show ?thesis by simp
next
  case False
  then show ?thesis by (simp add: to_lower_fix)
qed

lemma is_upper_to_upper [simp]: "is_upper (to_upper c) = is_cased c"
proof (cases "is_lower c")
  case True
  then have "code (to_upper c) = code c - 32" "97 \<le> code c" "code c \<le> 122"
    by (simp_all add: code_upper is_lower_def)
  then have "is_upper (to_upper c)" unfolding is_upper_def [of "to_upper c"] by arith
  with True show ?thesis by (simp add: is_cased_def)
next
  case False
  then show ?thesis by (simp add: to_upper_fix is_cased_def)
qed

lemma is_lower_to_lower [simp]: "is_lower (to_lower c) = is_cased c"
proof (cases "is_upper c")
  case True
  then have "code (to_lower c) = code c + 32" "65 \<le> code c" "code c \<le> 90"
    by (simp_all add: code_lower is_upper_def)
  then have "is_lower (to_lower c)" unfolding is_lower_def [of "to_lower c"] by arith
  with True show ?thesis by (simp add: is_cased_def)
next
  case False
  then show ?thesis by (simp add: to_lower_fix is_cased_def)
qed

lemma is_cased_to_upper [simp]: "is_cased (to_upper c) = is_cased c"
  by (simp add: is_cased_def [of "to_upper c"])

lemma is_cased_to_lower [simp]: "is_cased (to_lower c) = is_cased c"
  by (simp add: is_cased_def [of "to_lower c"])

lemma to_upper_idem [simp]: "to_upper (to_upper c) = to_upper c"
  by (simp add: to_upper_fix)

lemma to_lower_idem [simp]: "to_lower (to_lower c) = to_lower c"
  by (simp add: to_lower_fix)

lemma to_lower_to_upper [simp]: "to_lower (to_upper c) = to_lower c"
proof (cases "is_lower c")
  case True
  then have "is_upper (to_upper c)" by (simp add: is_cased_def)
  then have "code (to_lower (to_upper c)) = code c - 32 + 32"
    using True by (simp add: code_lower code_upper)
  moreover have "32 \<le> code c" using True by (simp add: is_lower_def)
  moreover have "\<not> is_upper c" using True by (simp add: is_lower_def is_upper_def)
  ultimately show ?thesis by (auto intro: code_inj simp: to_lower_fix)
next
  case False
  then show ?thesis by (simp add: to_upper_fix)
qed

lemma to_upper_to_lower [simp]: "to_upper (to_lower c) = to_upper c"
proof (cases "is_upper c")
  case True
  then have "is_lower (to_lower c)" by (simp add: is_cased_def)
  then have "code (to_upper (to_lower c)) = code c + 32 - 32"
    using True by (simp add: code_lower code_upper)
  moreover have "\<not> is_lower c" using True by (simp add: is_lower_def is_upper_def)
  ultimately show ?thesis by (auto intro: code_inj simp: to_upper_fix)
next
  case False
  then show ?thesis by (simp add: to_lower_fix)
qed

lemma is_space_not_cased: "is_space c \<Longrightarrow> \<not> is_cased c"
  by (auto simp: is_space_def is_cased_def is_upper_def is_lower_def)

lemma is_space_to_upper [simp]: "is_space (to_upper c) = is_space c"
proof (cases "is_lower c")
  case True
  then have "is_cased (to_upper c)" "is_cased c" by (simp_all add: is_cased_def)
  then show ?thesis using is_space_not_cased by blast
next
  case False
  then show ?thesis by (simp add: to_upper_fix)
qed

lemma is_space_to_lower [simp]: "is_space (to_lower c) = is_space c"
proof (cases "is_upper c")
  case True
  then have "is_cased (to_lower c)" "is_cased c" by (simp_all add: is_cased_def)
  then show ?thesis using is_space_not_cased by blast
next
  case False
  then show ?thesis by (simp add: to_lower_fix)
qed

lemma code_comma: "code CHR '','' = 44" by (simp add: code_def)

lemma comma_iff: "c = CHR '','' \<longleftrightarrow> code c = 44"
  using code_inj [of c "CHR '',''"] by (auto simp: code_comma)

lemma not_cased_comma: "\<not> is_cased CHR '',''"
  by (simp add: is_cased_def is_upper_def is_lower_def code_comma)

lemma to_upper_comma [simp]: "to_upper c = CHR '','' \<longleftrightarrow> c = CHR '',''"
proof (cases "is_lower c")
  case True
  then have "is_cased (to_upper c)" "is_cased c" by (simp_all add: is_cased_def)
  then show ?thesis using not_cased_comma by metis
next
  case False
  then show ?thesis by (simp add: to_upper_fix)
qed

lemma to_lower_comma [simp]: "to_lower c = CHR '','' \<longleftrightarrow> c = CHR '',''"
proof (cases "is_upper c")
  case True
  then have "is_cased (to_lower c)" "is_cased c" by (simp_all add: is_cased_def)
  then show ?thesis using not_cased_comma by metis
next
  case False
  then show ?thesis by (simp add: to_lower_fix)
qed

subsection \<open>strip\<close>

lemma py_strip_stripped: "stripped (py_strip s)"
proof -
  let ?a = "dropWhile is_space s"
  let ?b = "dropWhile is_space (rev ?a)"
  show ?thesis
  proof (cases "?b = []")
    case True
    then show ?thesis by (simp add: stripped_def py_strip_def)
  next
    case False
    then have hb: "\<not> is_space (hd ?b)" using hd_dropWhile by blast
    have a_ne: "?a \<noteq> []"
    proof
      assume "?a = []"
      then have "?b = []" by (metis dropWhile.simps(1) rev.simps(1))
      with False show False by simp
    qed
    then have ha: "\<not> is_space (hd ?a)" using hd_dropWhile by blast
    obtain ys where ys: "rev ?a = takeWhile is_space (rev ?a) @ ?b" by simp
    have "last ?b = last (rev ?a)" using False
      by (metis last_appendR takeWhile_dropWhile_id)
    also have "\<dots> = hd ?a" using a_ne by (simp add: last_rev)
    finally have "\<not> is_space (last ?b)" using ha by simp
    with hb False show ?thesis
      by (simp add: stripped_def py_strip_def hd_rev last_rev)
  qed
qed

lemma stripped_py_strip: "stripped s \<Longrightarrow> py_strip s = s"
proof (cases s)
  case Nil
  then show ?thesis by (simp add: py_strip_def)
next
  case (Cons c cs)
  assume "stripped s"
  with Cons have h: "\<not> is_space (hd s)" "\<not> is_space (last s)" "s \<noteq> []"
    by (auto simp: stripped_def)
  then have "dropWhile is_space s = s" by (cases s) auto
  moreover have "dropWhile is_space (rev s) = rev s"
    using h by (cases "rev s") (auto simp: last_rev [symmetric] hd_rev)
  ultimately show ?thesis by (simp add: py_strip_def)
qed

lemma py_strip_idem [simp]: "py_strip (py_strip s) = py_strip s"
  by (simp add: stripped_py_strip py_strip_stripped)

lemma py_strip_map:
  assumes "\<And>c. is_space (f c) = is_space c"
  shows "py_strip (map f s) = map f (py_strip s)"
proof -
  have "is_space \<circ> f = is_space" using assms by auto
  then show ?thesis by (simp add: py_strip_def dropWhile_map rev_map)
qed

lemma py_strip_lower [simp]: "py_strip (py_lower s) = py_lower (py_strip s)"
  by (simp add: py_lower_def py_strip_map)

lemma py_strip_upper [simp]: "py_strip (py_upper s) = py_upper (py_strip s)"
  by (simp add: py_upper_def py_strip_map)


lemma set_py_strip: "set (py_strip s) \<subseteq> set s"
proof -
  have "set (py_strip s) \<subseteq> set (dropWhile is_space s)"
    unfolding py_strip_def using set_dropWhileD by fastforce
  also have "\<dots> \<subseteq> set s" using set_dropWhileD by fastforce
  finally show ?thesis .
qed

subsection \<open>title\<close>

lemma length_title_from [simp]: "length (title_from b s) = length s"
  by (induction s arbitrary: b) simp_all

lemma title_from_Nil_iff [simp]: "title_from b s = [] \<longleftrightarrow> s = []"
  by (cases s) simp_all

lemma title_from_idem [simp]: "title_from b (title_from b s) = title_from b s"
  by (induction s arbitrary: b) simp_all

lemma py_title_idem [simp]: "py_title (py_title s) = py_title s"
  by (simp add: py_title_def)

lemma is_space_title_from: "map is_space (title_from b s) = map is_space s"
  by (induction s arbitrary: b) simp_all

lemma stripped_iff: "stripped s \<longleftrightarrow> (s = [] \<or> (\<not> hd (map is_space s) \<and> \<not> last (map is_space s)))"
  by (cases s) (simp_all add: stripped_def last_map)

lemma stripped_title_from [simp]: "stripped (title_from b s) = stripped s"
  by (simp add: stripped_iff is_space_title_from)

lemma py_strip_title [simp]: "py_strip (py_title (py_strip s)) = py_title (py_strip s)"
  by (simp add: stripped_py_strip py_title_def py_strip_stripped)

lemma comma_to_upper [simp]: "CHR '','' = to_upper c \<longleftrightarrow> c = CHR '',''"
  using to_upper_comma [of c] by metis

lemma comma_to_lower [simp]: "CHR '','' = to_lower c \<longleftrightarrow> c = CHR '',''"
  using to_lower_comma [of c] by metis

lemma comma_title_from [simp]: "CHR '','' \<in> set (title_from b s) \<longleftrightarrow> CHR '','' \<in> set s"
  by (induction s arbitrary: b) auto

lemma lower_title_from [simp]: "py_lower (title_from b s) = py_lower s"
  by (induction s arbitrary: b) (simp_all add: py_lower_def)

lemma py_lower_title [simp]: "py_lower (py_title s) = py_lower s"
  by (simp add: py_title_def)

lemma py_upper_idem [simp]: "py_upper (py_upper s) = py_upper s"
  by (simp add: py_upper_def)

lemma comma_upper [simp]: "CHR '','' \<in> set (py_upper s) \<longleftrightarrow> CHR '','' \<in> set s"
  by (induction s) (auto simp: py_upper_def)

lemma stripped_upper [simp]: "stripped (py_upper s) = stripped s"
  by (cases s) (simp_all add: stripped_def py_upper_def last_map)

subsection \<open>split on a separator\<close>

lemma py_split_on_ne [simp]: "py_split_on sep s \<noteq> []"
  by (induction s) (simp_all add: Let_def)

lemma py_split_on_nosep: "sep \<notin> set s \<Longrightarrow> py_split_on sep s = [s]"
  by (induction s) (auto simp: Let_def)



section \<open>Re-parsing a canonical name\<close>

lemma parse_name_via:
  "parse_name raw =
     (let toks = py_split (informal_of raw)
      in if toks = [] then Inl IndexError
         else Inr \<lparr>full_name =
                     (if suffix_of raw \<noteq> [] then informal_of raw @ '', '' @ suffix_of raw
                      else informal_of raw),
                   informal_name = informal_of raw, suffix = suffix_of raw,
                   last_name = py_title (py_strip (last toks)),
                   first_name = py_title (py_join '' '' (butlast toks))\<rparr>)"
  by (simp add: parse_name_def informal_of_def suffix_of_def Let_def)









lemma is_space_blank: "is_space CHR '' ''"
  by (simp add: is_space_def code_def)





subsection \<open>tokens\<close>

lemma title_from_append:
  "title_from b (xs @ ys)
   = title_from b xs @ title_from (if xs = [] then b else is_cased (last xs)) ys"
  by (induction xs arbitrary: b) simp_all

lemma not_cased_fix: "\<not> is_cased c \<Longrightarrow> to_upper c = c \<and> to_lower c = c"
  by (simp add: is_cased_def to_upper_fix to_lower_fix)

lemma title_from_uncased_hd:
  "s = [] \<or> \<not> is_cased (hd s) \<Longrightarrow> title_from b s = title_from False s"
  by (cases s) (auto simp: not_cased_fix)

lemma titled_dropWhile_space:
  "title_from False s = s \<Longrightarrow> title_from False (dropWhile is_space s) = dropWhile is_space s"
proof (induction s)
  case Nil
  then show ?case by simp
next
  case (Cons c cs)
  show ?case
  proof (cases "is_space c")
    case True
    then have "\<not> is_cased c" by (rule is_space_not_cased)
    with Cons True show ?thesis by simp
  next
    case False
    with Cons.prems show ?thesis by simp
  qed
qed

lemma append_eq_same_length:
  "xs @ ys = xs' @ ys' \<Longrightarrow> length xs = length xs' \<Longrightarrow> xs = xs' \<and> ys = ys'"
  by simp

lemma py_split_titled:
  "title_from False s = s \<Longrightarrow> w \<in> set (py_split s) \<Longrightarrow> title_from False w = w"
proof (induction s rule: py_split.induct)
  case (1 s)
  show ?case
  proof (cases "dropWhile is_space s")
    case Nil
    with "1.prems" show ?thesis by (simp add: py_split.simps [of s])
  next
    case (Cons c cs)
    define tok where "tok = c # takeWhile (\<lambda>x. \<not> is_space x) cs"
    define rest where "rest = dropWhile (\<lambda>x. \<not> is_space x) cs"
    have tok_ne: "tok \<noteq> []" by (simp add: tok_def)
    have split: "dropWhile is_space s = tok @ rest"
      by (simp add: Cons tok_def rest_def)
    have "title_from False (tok @ rest) = tok @ rest"
      using titled_dropWhile_space [OF "1.prems"(1)] split by simp
    then have "title_from False tok @ title_from (is_cased (last tok)) rest = tok @ rest"
      using tok_ne by (simp add: title_from_append)
    then have tok: "title_from False tok = tok"
      and rest: "title_from (is_cased (last tok)) rest = rest"
      by simp_all
    have "rest = [] \<or> is_space (hd rest)"
      unfolding rest_def using hd_dropWhile [of "\<lambda>x. \<not> is_space x" cs] by auto
    then have "rest = [] \<or> \<not> is_cased (hd rest)"
      using is_space_not_cased by auto
    then have rest': "title_from False rest = rest"
      using rest title_from_uncased_hd by metis
    from "1.prems"(2) Cons have "w = tok \<or> w \<in> set (py_split rest)"
      by (simp add: py_split.simps [of s] tok_def rest_def)
    then show ?thesis
    proof
      assume "w = tok"
      with tok show ?thesis by simp
    next
      assume "w \<in> set (py_split rest)"
      with "1.IH" [OF Cons] rest' show ?thesis by (simp add: rest_def)
    qed
  qed
qed

lemma py_split_token:
  "w \<in> set (py_split s) \<Longrightarrow> w \<noteq> [] \<and> (\<forall>c\<in>set w. \<not> is_space c)"
proof (induction s rule: py_split.induct)
  case (1 s)
  show ?case
  proof (cases "dropWhile is_space s")
    case Nil
    with "1.prems" show ?thesis by (simp add: py_split.simps [of s])
  next
    case (Cons c cs)
    let ?tok = "c # takeWhile (\<lambda>x. \<not> is_space x) cs"
    let ?rest = "dropWhile (\<lambda>x. \<not> is_space x) cs"
    have c: "\<not> is_space c" using hd_dropWhile [of is_space s] Cons by auto
    have "\<forall>x\<in>set (takeWhile (\<lambda>x. \<not> is_space x) cs). \<not> is_space x"
      using set_takeWhileD by fastforce
    with c have tok: "\<forall>x\<in>set ?tok. \<not> is_space x" by simp
    from "1.prems" Cons have "w = ?tok \<or> w \<in> set (py_split ?rest)"
      by (simp add: py_split.simps [of s])
    then show ?thesis
    proof
      assume "w = ?tok"
      with tok show ?thesis by simp
    next
      assume "w \<in> set (py_split ?rest)"
      with "1.IH" [OF Cons] show ?thesis by simp
    qed
  qed
qed

lemma no_space_stripped: "\<forall>c\<in>set w. \<not> is_space c \<Longrightarrow> py_strip w = w"
  by (rule stripped_py_strip) (cases w, auto simp: stripped_def)

lemma not_cased_blank: "\<not> is_cased CHR '' ''"
  using is_space_not_cased is_space_blank by blast

lemma join_titled:
  "\<forall>w\<in>set ws. title_from False w = w \<Longrightarrow> title_from False (py_join '' '' ws) = py_join '' '' ws"
proof (induction ws rule: induct_list012)
  case 1
  then show ?case by simp
next
  case (2 x)
  then show ?case by simp
next
  case (3 x y zs)
  have "title_from b (CHR '' '' # py_join '' '' (y # zs)) = CHR '' '' # py_join '' '' (y # zs)" for b
    using 3 not_cased_blank by (simp add: not_cased_fix)
  with 3 show ?case by (simp add: title_from_append)
qed

section \<open>What \<^verbatim>\<open>parse_name\<close> returns\<close>

lemma informal_titled: "title_from False (informal_of raw) = informal_of raw"
  by (simp add: informal_of_def py_title_def)

lemma parse_name_tokens:
  assumes "parse_name raw = Inr p"
  shows "py_split (informal_of raw) \<noteq> []"
    and "last_name p = last (py_split (informal_of raw))"
    and "first_name p = py_join '' '' (butlast (py_split (informal_of raw)))"
proof -
  let ?toks = "py_split (informal_of raw)"
  show ne: "?toks \<noteq> []"
    using assms by (auto simp: parse_name_via Let_def split: if_splits)
  have titled: "\<forall>w\<in>set ?toks. title_from False w = w"
    using py_split_titled [OF informal_titled] by blast
  have l: "last ?toks \<in> set ?toks" using ne by simp
  then have "py_strip (last ?toks) = last ?toks"
    using py_split_token no_space_stripped by blast
  moreover have "title_from False (last ?toks) = last ?toks"
    using titled l by blast
  moreover have "last_name p = py_title (py_strip (last ?toks))"
    using assms ne by (auto simp: parse_name_via Let_def)
  ultimately show "last_name p = last ?toks" by (simp add: py_title_def)
  have "\<forall>w\<in>set (butlast ?toks). title_from False w = w"
    using titled in_set_butlastD by fastforce
  then have "title_from False (py_join '' '' (butlast ?toks)) = py_join '' '' (butlast ?toks)"
    by (rule join_titled)
  moreover have "first_name p = py_title (py_join '' '' (butlast ?toks))"
    using assms ne by (auto simp: parse_name_via Let_def)
  ultimately show "first_name p = py_join '' '' (butlast ?toks)" by (simp add: py_title_def)
qed



section \<open>Valid names\<close>

lemma py_split_single:
  assumes "s \<noteq> []" "\<forall>c\<in>set s. \<not> is_space c"
  shows "py_split s = [s]"
proof -
  obtain c cs where s: "s = c # cs" using assms(1) by (cases s) auto
  have d: "dropWhile is_space s = c # cs" using assms(2) s by simp
  have t: "takeWhile (\<lambda>x. \<not> is_space x) cs = cs" using assms(2) s by simp
  have r: "dropWhile (\<lambda>x. \<not> is_space x) cs = []" using assms(2) s by simp
  have e: "py_split [] = []" by (subst py_split.simps) simp
  have "py_split s = [c # cs]" by (subst py_split.simps) (simp add: d t r e)
  then show ?thesis by (simp add: s)
qed

lemma single_word_first_name:
  assumes "s \<noteq> []" "\<forall>c\<in>set s. \<not> is_space c \<and> c \<noteq> CHR '',''"
    and "parse_name s = Inr p"
  shows "first_name p = []"
proof -
  have "CHR '','' \<notin> set s" using assms(2) by blast
  then have "py_split_on CHR '','' s = [s]" by (rule py_split_on_nosep)
  moreover have "py_strip s = s" using assms(2) by (simp add: no_space_stripped)
  ultimately have i: "informal_of s = title_from False s"
    by (simp add: informal_of_def py_title_def)
  have "\<forall>c\<in>set (title_from False s). \<not> is_space c"
  proof -
    have "map is_space (title_from False s) = map is_space s" by (rule is_space_title_from)
    then have "is_space ` set (title_from False s) = is_space ` set s"
      by (metis set_map)
    with assms(2) show ?thesis by (metis (full_types) imageE imageI)
  qed
  then have "py_split (informal_of s) = [informal_of s]"
    using assms(1) by (simp add: i py_split_single)
  with assms(3) show ?thesis
    by (auto simp: parse_name_via Let_def py_title_def)
qed

lemma lower_word:
  assumes "py_lower s = t" "t \<noteq> []" "\<forall>c\<in>set t. \<not> is_space c \<and> c \<noteq> CHR '',''"
  shows "s \<noteq> [] \<and> (\<forall>c\<in>set s. \<not> is_space c \<and> c \<noteq> CHR '','')"
proof
  show "s \<noteq> []" using assms(1,2) by (auto simp: py_lower_def)
  show "\<forall>c\<in>set s. \<not> is_space c \<and> c \<noteq> CHR '',''"
  proof
    fix c assume "c \<in> set s"
    then have "to_lower c \<in> set t" using assms(1) by (auto simp: py_lower_def)
    with assms(3) have "\<not> is_space (to_lower c) \<and> to_lower c \<noteq> CHR '',''" by blast
    then show "\<not> is_space c \<and> c \<noteq> CHR '',''" by simp
  qed
qed

lemma directive_words:
  "t \<in> set [''q'', ''quit'', ''l'', ''list''] \<Longrightarrow>
     t \<noteq> [] \<and> (\<forall>c\<in>set t. \<not> is_space c \<and> c \<noteq> CHR '','')"
  by (auto simp: is_space_def code_def)

lemma parse_name_empty: "parse_name [] = Inl IndexError"
  by code_simp

lemma valid_name:
  assumes "parse_name sel = Inr parsed" "first_name parsed \<noteq> []"
  shows "py_lower sel \<notin> set [''q'', ''quit'']"
    and "py_lower sel \<notin> set [''l'', ''list'']"
    and "sel \<noteq> []"
    and "last_name parsed \<noteq> []"
proof -
  have d: "py_lower sel \<notin> set [''q'', ''quit'', ''l'', ''list'']"
  proof
    assume m: "py_lower sel \<in> set [''q'', ''quit'', ''l'', ''list'']"
    from lower_word [OF refl] directive_words [OF m]
    have "sel \<noteq> [] \<and> (\<forall>c\<in>set sel. \<not> is_space c \<and> c \<noteq> CHR '','')" by blast
    with assms show False using single_word_first_name by blast
  qed
  then show "py_lower sel \<notin> set [''q'', ''quit'']" "py_lower sel \<notin> set [''l'', ''list'']"
    by auto
  show "sel \<noteq> []" using assms(1) parse_name_empty by auto
  have "last_name parsed \<in> set (py_split (informal_of sel))"
    using parse_name_tokens(1,2) [OF assms(1)] by simp
  then show "last_name parsed \<noteq> []" using py_split_token by blast
qed

section \<open>Running the prompts\<close>

lemma donors_emit [simp]: "donors (emit line st) = donors st"
  by (simp add: emit_def)

lemma clock_emit [simp]: "clock (emit line st) = clock st"
  by (simp add: emit_def)

lemma stdout_emit [simp]: "stdout (emit line st) = stdout st @ [line]"
  by (simp add: emit_def)

lemma donors_print_lines [simp]: "donors (print_lines n st) = donors st"
  by (induction n arbitrary: st) simp_all

lemma clock_print_lines [simp]: "clock (print_lines n st) = clock st"
  by (induction n arbitrary: st) simp_all

lemma stdout_print_lines [simp]: "stdout (print_lines n st) = stdout st @ replicate n []"
  by (induction n arbitrary: st) (simp_all add: replicate_append_same)

lemma prompted_name_simps [simp]:
  "donors (prompted_name st rest) = donors st"
  "clock (prompted_name st rest) = clock st"
  "stdin (prompted_name st rest) = rest"
  "stdout (prompted_name st rest) = stdout st @ [[], [], entry_menu]"
  by (simp_all add: prompted_name_def numeral_2_eq_2)

lemma prompted_amount_simps [simp]:
  "donors (prompted_amount c st rest) = donors st"
  "clock (prompted_amount c st rest) = clock st"
  "stdin (prompted_amount c st rest) = rest"
  "stdout (prompted_amount c st rest) = stdout st @ [[], [], amount_menu c]"
  by (simp_all add: prompted_amount_def numeral_2_eq_2)

lemma donors_print_thank_you [simp]: "donors (print_thank_you c h st) = donors st"
  by (simp add: print_thank_you_def)

lemma clock_print_thank_you [simp]: "clock (print_thank_you c h st) = clock st"
  by (simp add: print_thank_you_def)

lemma gda_pending:
  "stdin st = [] \<Longrightarrow> fst (get_donation_amount c st) = Pending"
  by (subst get_donation_amount.simps) (simp add: Let_def)

lemma gda_quit:
  assumes "stdin st = raw # rest" "py_lower (safe_input raw) \<in> set [''q'', ''quit'']"
  shows "get_donation_amount c st = (Returned None, prompted_amount c st rest)"
  using assms by (subst get_donation_amount.simps) (simp add: Let_def prompted_amount_def)

lemma gda_accept:
  assumes "stdin st = raw # rest" "py_lower (safe_input raw) \<notin> set [''q'', ''quit'']"
    and "py_float (safe_input raw) = Inr a"
  shows "get_donation_amount c st = (Returned (Some a), prompted_amount c st rest)"
  using assms by (subst get_donation_amount.simps) (simp add: Let_def prompted_amount_def)

lemma gda_reject:
  assumes "stdin st = raw # rest" "py_lower (safe_input raw) \<notin> set [''q'', ''quit'']"
    and "py_float (safe_input raw) = Inl err"
  shows "get_donation_amount c st
         = get_donation_amount c (emit not_numeric_msg (print_lines 2 (prompted_amount c st rest)))"
  using assms by (subst get_donation_amount.simps) (simp add: Let_def prompted_amount_def)

lemma gda_keeps:
  "donors (snd (get_donation_amount c st)) = donors st
   \<and> clock (snd (get_donation_amount c st)) = clock st"
proof (induction "length (stdin st)" arbitrary: st rule: less_induct)
  case less
  show ?case
  proof (cases "stdin st")
    case Nil
    then show ?thesis by (subst (1 2) get_donation_amount.simps) (simp add: Let_def)
  next
    case (Cons raw rest)
    show ?thesis
    proof (cases "py_lower (safe_input raw) \<in> set [''q'', ''quit'']")
      case True
      then show ?thesis using gda_quit [OF Cons True] by simp
    next
      case False
      show ?thesis
      proof (cases "py_float (safe_input raw)")
        case (Inr a)
        then show ?thesis using gda_accept [OF Cons False Inr] by simp
      next
        case (Inl err)
        let ?st' = "emit not_numeric_msg (print_lines 2 (prompted_amount c st rest))"
        have "length (stdin ?st') < length (stdin st)" using Cons by simp
        from less [OF this] show ?thesis using gda_reject [OF Cons False Inl] by simp
      qed
    qed
  qed
qed

lemma match_existing_None:
  "match_existing ds i cur did = (cur', None) \<Longrightarrow> cur' = cur \<and> did = None"
  by (induction ds arbitrary: i cur did) (auto split: if_splits)

subsection \<open>Properties of the scan\<close>

lemma match_existing_spec:
  "match_existing ds i c did = (cur, r) \<Longrightarrow>
     (if \<forall>d\<in>set ds. \<not> name_matches d c then cur = c \<and> r = did
      else \<exists>j<length ds. r = Some (i + j) \<and> cur = as_current (ds ! j)
             \<and> (\<exists>k\<le>j. name_matches (ds ! k) c \<and> (\<forall>m<k. \<not> name_matches (ds ! m) c))
             \<and> (\<forall>m. j < m \<and> m < length ds \<longrightarrow> \<not> name_matches (ds ! m) cur))"
proof (induction ds arbitrary: i c did)
  case Nil
  then show ?case by simp
next
  case (Cons d ds)
  show ?case
  proof (cases "name_matches d c")
    case True
    then have run: "match_existing ds (Suc i) (as_current d) (Some i) = (cur, r)"
      using Cons.prems by simp
    note ih = Cons.IH [OF run]
    show ?thesis
    proof (cases "\<forall>x\<in>set ds. \<not> name_matches x (as_current d)")
      case none: True
      with ih have e: "cur = as_current d" "r = Some i" by simp_all
      have later: "\<forall>m. 0 < m \<and> m < length (d # ds) \<longrightarrow> \<not> name_matches ((d # ds) ! m) cur"
      proof (intro allI impI)
        fix m assume "0 < m \<and> m < length (d # ds)"
        then obtain m' where "m = Suc m'" "m' < length ds" by (cases m) auto
        with none e show "\<not> name_matches ((d # ds) ! m) cur" by simp
      qed
      have "0 < length (d # ds) \<and> r = Some (i + 0) \<and> cur = as_current ((d # ds) ! 0)
            \<and> (\<exists>k\<le>0. name_matches ((d # ds) ! k) c \<and> (\<forall>m<k. \<not> name_matches ((d # ds) ! m) c))
            \<and> (\<forall>m. 0 < m \<and> m < length (d # ds) \<longrightarrow> \<not> name_matches ((d # ds) ! m) cur)"
        using e True later by simp
      then have "\<exists>j<length (d # ds). r = Some (i + j) \<and> cur = as_current ((d # ds) ! j)
            \<and> (\<exists>k\<le>j. name_matches ((d # ds) ! k) c \<and> (\<forall>m<k. \<not> name_matches ((d # ds) ! m) c))
            \<and> (\<forall>m. j < m \<and> m < length (d # ds) \<longrightarrow> \<not> name_matches ((d # ds) ! m) cur)"
        by blast
      with True show ?thesis by simp
    next
      case False
      with ih obtain j where j: "j < length ds" "r = Some (Suc i + j)" "cur = as_current (ds ! j)"
        "\<forall>m. j < m \<and> m < length ds \<longrightarrow> \<not> name_matches (ds ! m) cur"
        by auto
      have later: "\<forall>m. Suc j < m \<and> m < length (d # ds) \<longrightarrow> \<not> name_matches ((d # ds) ! m) cur"
      proof (intro allI impI)
        fix m assume a: "Suc j < m \<and> m < length (d # ds)"
        then obtain m' where "m = Suc m'" "j < m'" "m' < length ds" by (cases m) auto
        with j(4) show "\<not> name_matches ((d # ds) ! m) cur" by simp
      qed
      have first: "\<exists>k\<le>Suc j. name_matches ((d # ds) ! k) c \<and> (\<forall>m<k. \<not> name_matches ((d # ds) ! m) c)"
        using True by (intro exI [of _ 0]) simp
      have "Suc j < length (d # ds) \<and> r = Some (i + Suc j) \<and> cur = as_current ((d # ds) ! Suc j)"
        using j by simp
      with first later
      have "\<exists>j<length (d # ds). r = Some (i + j) \<and> cur = as_current ((d # ds) ! j)
            \<and> (\<exists>k\<le>j. name_matches ((d # ds) ! k) c \<and> (\<forall>m<k. \<not> name_matches ((d # ds) ! m) c))
            \<and> (\<forall>m. j < m \<and> m < length (d # ds) \<longrightarrow> \<not> name_matches ((d # ds) ! m) cur)"
        by blast
      with True show ?thesis by simp
    qed
  next
    case nomatch: False
    then have run: "match_existing ds (Suc i) c did = (cur, r)"
      using Cons.prems by simp
    note ih = Cons.IH [OF run]
    show ?thesis
    proof (cases "\<forall>x\<in>set ds. \<not> name_matches x c")
      case True
      with ih nomatch show ?thesis by simp
    next
      case False
      with ih obtain j k where j: "j < length ds" "r = Some (Suc i + j)" "cur = as_current (ds ! j)"
        "\<forall>m. j < m \<and> m < length ds \<longrightarrow> \<not> name_matches (ds ! m) cur"
        and k: "k \<le> j" "name_matches (ds ! k) c" "\<forall>m<k. \<not> name_matches (ds ! m) c"
        by auto
      have later: "\<forall>m. Suc j < m \<and> m < length (d # ds) \<longrightarrow> \<not> name_matches ((d # ds) ! m) cur"
      proof (intro allI impI)
        fix m assume a: "Suc j < m \<and> m < length (d # ds)"
        then obtain m' where "m = Suc m'" "j < m'" "m' < length ds" by (cases m) auto
        with j(4) show "\<not> name_matches ((d # ds) ! m) cur" by simp
      qed
      have before: "\<forall>m<Suc k. \<not> name_matches ((d # ds) ! m) c"
      proof (intro allI impI)
        fix m assume "m < Suc k"
        then show "\<not> name_matches ((d # ds) ! m) c"
          using nomatch k(3) by (cases m) auto
      qed
      have first: "\<exists>k\<le>Suc j. name_matches ((d # ds) ! k) c \<and> (\<forall>m<k. \<not> name_matches ((d # ds) ! m) c)"
        using k(1,2) before by (intro exI [of _ "Suc k"]) simp
      have "Suc j < length (d # ds) \<and> r = Some (i + Suc j) \<and> cur = as_current ((d # ds) ! Suc j)"
        using j by simp
      with first later
      have "\<exists>j<length (d # ds). r = Some (i + j) \<and> cur = as_current ((d # ds) ! j)
            \<and> (\<exists>k\<le>j. name_matches ((d # ds) ! k) c \<and> (\<forall>m<k. \<not> name_matches ((d # ds) ! m) c))
            \<and> (\<forall>m. j < m \<and> m < length (d # ds) \<longrightarrow> \<not> name_matches ((d # ds) ! m) cur)"
        by blast
      with False nomatch show ?thesis by auto
    qed
  qed
qed




subsection \<open>The loop body\<close>

lemma body_valid_name:
  assumes "stdin st = raw # rest"
    and "parse_name (safe_input raw) = Inr parsed" "first_name parsed \<noteq> []"
  shows "thank_you_body e st =
     (let st2 = prompted_name st rest;
          (current_donor, donor_id) = match_existing (donors st) 0 parsed None
      in case get_donation_amount current_donor st2 of
           (Pending, st3) \<Rightarrow> (Stop Pending, st3)
         | (Raised err, st3) \<Rightarrow> (Stop (Raised err), st3)
         | (Returned None, st3) \<Rightarrow>
             (Stop (Returned ()), emit cancelled_msg (print_lines 2 st3))
         | (Returned (Some new_donation), st3) \<Rightarrow>
             (let today = utc_date e (clock st3) @ ''Z'';
                  st4 = st3\<lparr>clock := Suc (clock st3)\<rparr>;
                  dn = \<lparr>amount = new_donation, date = today\<rparr>
              in case donor_id of
                   Some i \<Rightarrow>
                     (Continue,
                      print_thank_you current_donor ''returning''
                        (st4\<lparr>donors := append_donation i dn (donors st4)\<rparr>))
                 | None \<Rightarrow>
                     (let now = utc_time e (clock st4) @ ''Z'';
                          st5 = st4\<lparr>clock := Suc (clock st4)\<rparr>;
                          id_source = full_name current_donor @ now;
                          uid = md5_hexdigest e id_source;
                          new_donor =
                            \<lparr>full_name = full_name current_donor,
                             informal_name = informal_name current_donor,
                             suffix = suffix current_donor,
                             last_name = last_name current_donor,
                             first_name = first_name current_donor,
                             created = now, user_id = uid,
                             donations = [dn]\<rparr>
                      in (Continue,
                          print_thank_you current_donor ''new''
                            (st5\<lparr>donors := donors st5 @ [new_donor]\<rparr>)))))"
proof -
  note v = valid_name [OF assms(2,3)]
  show ?thesis
    unfolding thank_you_body_def
    using assms v
    by (simp add: Let_def prompted_name_def)
qed

lemma gda_rejects:
  assumes "\<forall>b\<in>set bad. py_lower (safe_input b) \<notin> set [''q'', ''quit'']
             \<and> py_float (safe_input b) = Inl ValueError"
    and "stdin st = bad @ rest"
  shows "get_donation_amount c st
         = get_donation_amount c
             (st\<lparr>stdin := rest,
                 stdout := stdout st
                   @ concat (replicate (length bad) [[], [], amount_menu c, [], [], not_numeric_msg])\<rparr>)"
  using assms
proof (induction bad arbitrary: st)
  case Nil
  then have "st\<lparr>stdin := rest, stdout := stdout st\<rparr> = st" by simp
  then show ?case by simp
next
  case (Cons b bad)
  let ?st' = "emit not_numeric_msg (print_lines 2 (prompted_amount c st (bad @ rest)))"
  have s: "stdin st = b # (bad @ rest)" using Cons.prems(2) by simp
  have r: "get_donation_amount c st = get_donation_amount c ?st'"
    using gda_reject [OF s] Cons.prems(1) by simp
  have "stdin ?st' = bad @ rest" by simp
  from Cons.IH [OF _ this] Cons.prems(1)
  have "get_donation_amount c ?st'
        = get_donation_amount c
            (?st'\<lparr>stdin := rest,
                  stdout := stdout ?st'
                    @ concat (replicate (length bad) [[], [], amount_menu c, [], [], not_numeric_msg])\<rparr>)"
    by simp
  also have "?st'\<lparr>stdin := rest,
                  stdout := stdout ?st'
                    @ concat (replicate (length bad) [[], [], amount_menu c, [], [], not_numeric_msg])\<rparr>
      = st\<lparr>stdin := rest,
           stdout := stdout st
             @ concat (replicate (length (b # bad)) [[], [], amount_menu c, [], [], not_numeric_msg])\<rparr>"
    by (simp add: emit_def prompted_amount_def numeral_2_eq_2)
  finally show ?case using r by simp
qed

lemma thank_you_entry_stop:
  "thank_you_body e st = (Stop r, st') \<Longrightarrow> thank_you_entry e st = (r, st')"
  by (subst thank_you_entry.simps) simp

lemma thank_you_entry_continue:
  "thank_you_body e st = (Continue, st') \<Longrightarrow> thank_you_entry e st = thank_you_entry e st'"
  by (subst thank_you_entry.simps) simp

section \<open>Cancelling at the amount prompt\<close>

text \<open>
  Claim C6.  For every store and every name that reaches the amount prompt, typing
  \<^verbatim>\<open>q\<close> or \<^verbatim>\<open>quit\<close> (in any letter case) there, also after any number of rejected
  amounts, ends \<^verbatim>\<open>thank_you_entry\<close> with the donor list exactly as it was: no donor is
  added and no donation is appended.
\<close>

theorem cancel_leaves_store_unchanged:
  assumes "parse_name (safe_input name) = Inr parsed" and "first_name parsed \<noteq> []"
    and "\<forall>b\<in>set bad. py_lower (safe_input b) \<notin> set [''q'', ''quit'']
             \<and> py_float (safe_input b) = Inl ValueError"
    and "py_lower (safe_input cancel) \<in> set [''q'', ''quit'']"
    and "stdin st = name # bad @ cancel # rest"
  shows "fst (thank_you_entry e st) = Returned ()
         \<and> donors (snd (thank_you_entry e st)) = donors st
         \<and> clock (snd (thank_you_entry e st)) = clock st
         \<and> stdin (snd (thank_you_entry e st)) = rest
         \<and> last (stdout (snd (thank_you_entry e st))) = cancelled_msg"
proof -
  obtain cur did where m: "match_existing (donors st) 0 parsed None = (cur, did)"
    by (cases "match_existing (donors st) 0 parsed None")
  let ?st2 = "prompted_name st (bad @ cancel # rest)"
  let ?st2' = "?st2\<lparr>stdin := cancel # rest,
        stdout := stdout ?st2
          @ concat (replicate (length bad) [[], [], amount_menu cur, [], [], not_numeric_msg])\<rparr>"
  have "get_donation_amount cur ?st2 = get_donation_amount cur ?st2'"
    by (rule gda_rejects [OF assms(3)]) simp
  also have "\<dots> = (Returned None, prompted_amount cur ?st2' rest)"
    by (rule gda_quit [OF _ assms(4)]) simp
  finally have g: "get_donation_amount cur ?st2 = (Returned None, prompted_amount cur ?st2' rest)" .
  have "thank_you_body e st
        = (Stop (Returned ()), emit cancelled_msg (print_lines 2 (prompted_amount cur ?st2' rest)))"
    using body_valid_name [OF assms(5) assms(1,2), of e] m g by (simp add: Let_def)
  from thank_you_entry_stop [OF this] show ?thesis by simp
qed

theorem cancel_leaves_store_unchanged_witness:
  "parse_name (safe_input '' jane doe '')
     = Inr \<lparr>full_name = ''Jane Doe'', informal_name = ''Jane Doe'', suffix = [],
            last_name = ''Doe'', first_name = ''Jane''\<rparr>
   \<and> py_float (safe_input ''ten'') = Inl ValueError
   \<and> py_float (safe_input []) = Inl ValueError
   \<and> py_lower (safe_input ''Quit'') = ''quit''
   \<and> donors (snd (thank_you_entry sample_env
        (start [] ['' jane doe '', ''ten'', [], ''Quit'', ''x'']))) = []
   \<and> stdin (snd (thank_you_entry sample_env
        (start [] ['' jane doe '', ''ten'', [], ''Quit'', ''x'']))) = [''x'']"
proof -
  have h1: "parse_name (safe_input '' jane doe '')
     = Inr \<lparr>full_name = ''Jane Doe'', informal_name = ''Jane Doe'', suffix = [],
            last_name = ''Doe'', first_name = ''Jane''\<rparr>"
    by code_simp
  have h2: "first_name \<lparr>full_name = ''Jane Doe'', informal_name = ''Jane Doe'', suffix = [],
            last_name = ''Doe'', first_name = ''Jane''\<rparr> \<noteq> []"
    by simp
  have h3: "\<forall>b\<in>set [''ten'', []].
         py_lower (safe_input b) \<notin> set [''q'', ''quit'']
         \<and> py_float (safe_input b) = Inl ValueError"
    by code_simp
  have h4: "py_lower (safe_input ''Quit'') \<in> set [''q'', ''quit'']"
    by code_simp
  have h5: "stdin (start [] ['' jane doe '', ''ten'', [], ''Quit'', ''x''])
            = '' jane doe '' # [''ten'', []] @ ''Quit'' # [''x'']"
    by (simp add: start_def)
  have h6: "py_float (safe_input ''ten'') = Inl ValueError"
    "py_float (safe_input []) = Inl ValueError"
    "py_lower (safe_input ''Quit'') = ''quit''"
    by code_simp+
  from cancel_leaves_store_unchanged [OF h1 h2 h3 h4 h5, of sample_env] h1 h6
  show ?thesis by (simp add: start_def)
qed

section \<open>One completed entry\<close>

lemma body_donation:
  assumes "parse_name (safe_input name) = Inr parsed" and "first_name parsed \<noteq> []"
    and "match_existing (donors st) 0 parsed None = (cur, did)"
    and "py_lower (safe_input amt) \<notin> set [''q'', ''quit'']"
    and "py_float (safe_input amt) = Inr a"
    and "stdin st = name # amt # rest"
  shows "thank_you_body e st =
     (let st3 = prompted_amount cur (prompted_name st (amt # rest)) rest;
          dn = \<lparr>amount = a, date = utc_date e (clock st) @ ''Z''\<rparr>
      in case did of
           Some i \<Rightarrow>
             (Continue,
              print_thank_you cur ''returning''
                (st3\<lparr>clock := Suc (clock st), donors := append_donation i dn (donors st)\<rparr>))
         | None \<Rightarrow>
             (Continue,
              print_thank_you cur ''new''
                (st3\<lparr>clock := Suc (Suc (clock st)),
                     donors := donors st
                       @ [\<lparr>full_name = full_name cur, informal_name = informal_name cur,
                           suffix = suffix cur, last_name = last_name cur,
                           first_name = first_name cur,
                           created = utc_time e (Suc (clock st)) @ ''Z'',
                           user_id =
                             md5_hexdigest e (full_name cur @ utc_time e (Suc (clock st)) @ ''Z''),
                           donations = [dn]\<rparr>]\<rparr>)))"
proof -
  have g: "get_donation_amount cur (prompted_name st (amt # rest))
           = (Returned (Some a), prompted_amount cur (prompted_name st (amt # rest)) rest)"
    by (rule gda_accept [OF _ assms(4,5)]) simp
  show ?thesis
    using body_valid_name [OF assms(6) assms(1,2), of e] assms(3) g
    by (simp add: Let_def split: option.splits)
qed

lemma print_lines_state:
  "print_lines n st = st\<lparr>stdout := stdout st @ replicate n []\<rparr>"
  by (induction n arbitrary: st) (simp_all add: emit_def replicate_append_same)

lemma print_thank_you_state:
  "print_thank_you c h st
   = st\<lparr>stdout := stdout st
        @ [[], [], replicate 80 CHR ''-'', letter c h, replicate 80 CHR ''-'', [], []]\<rparr>"
  by (simp add: print_thank_you_def emit_def print_lines_state numeral_2_eq_2)

lemma body_existing:
  assumes "parse_name (safe_input name) = Inr parsed" and "first_name parsed \<noteq> []"
    and "match_existing (donors st) 0 parsed None = (cur, Some j)"
    and "py_lower (safe_input amt) \<notin> set [''q'', ''quit'']"
    and "py_float (safe_input amt) = Inr a"
    and "stdin st = name # amt # rest"
  shows "thank_you_body e st =
     (Continue,
      \<lparr>donors = append_donation j \<lparr>amount = a, date = utc_date e (clock st) @ ''Z''\<rparr> (donors st),
       stdin = rest,
       stdout = stdout st @ entry_output cur ''returning'',
       clock = Suc (clock st)\<rparr>)"
  using body_donation [OF assms, of e]
  by (cases st)
     (simp add: Let_def print_thank_you_state prompted_amount_def prompted_name_def emit_def
        print_lines_state entry_output_def numeral_2_eq_2)

lemma body_new:
  assumes "parse_name (safe_input name) = Inr parsed" and "first_name parsed \<noteq> []"
    and "snd (match_existing (donors st) 0 parsed None) = None"
    and "py_lower (safe_input amt) \<notin> set [''q'', ''quit'']"
    and "py_float (safe_input amt) = Inr a"
    and "stdin st = name # amt # rest"
  shows "thank_you_body e st =
     (Continue,
      \<lparr>donors = donors st
            @ [\<lparr>full_name = full_name parsed, informal_name = informal_name parsed,
                suffix = suffix parsed, last_name = last_name parsed,
                first_name = first_name parsed,
                created = utc_time e (Suc (clock st)) @ ''Z'',
                user_id =
                  md5_hexdigest e (full_name parsed @ utc_time e (Suc (clock st)) @ ''Z''),
                donations = [\<lparr>amount = a, date = utc_date e (clock st) @ ''Z''\<rparr>]\<rparr>],
       stdin = rest,
       stdout = stdout st @ entry_output parsed ''new'',
       clock = Suc (Suc (clock st))\<rparr>)"
proof -
  obtain cur where m: "match_existing (donors st) 0 parsed None = (cur, None)"
    using assms(3) by (cases "match_existing (donors st) 0 parsed None") auto
  then have c: "cur = parsed" using match_existing_None by blast
  show ?thesis
    using body_donation [OF assms(1,2) m assms(4,5,6), of e] c
    by (cases st)
       (simp add: Let_def print_thank_you_state prompted_amount_def prompted_name_def emit_def
          print_lines_state entry_output_def numeral_2_eq_2)
qed

lemma body_no_input:
  "stdin st = [] \<Longrightarrow>
     thank_you_body e st = (Stop Pending, st\<lparr>stdout := stdout st @ [[], [], entry_menu]\<rparr>)"
  by (simp add: thank_you_body_def Let_def emit_def print_lines_state numeral_2_eq_2)


subsection \<open>A parsed amount is not a directive\<close>








section \<open>Amounts\<close>

lemma jane_doe_parsed: "parse_name (safe_input ''Jane Doe'') = Inr jane_doe"
  by code_simp

lemma sample_env_simps:
  "utc_date sample_env k = ''2017-02-14''"
  "utc_time sample_env k = ''2017-02-14T10:00:0'' @ digits_of k"
  "md5_hexdigest sample_env s = ''md5 of '' @ s"
  by (simp_all add: sample_env_def)

lemma digits_of_small: "digits_of (Suc 0) = ''1''" "digits_of 3 = ''3''"
  by code_simp+




section \<open>A new donor\<close>

text \<open>
  Claim C9.  When a valid name matches no stored donor and a valid amount is typed,
  exactly one record is appended at the end of the store: its name fields are those of the
  parsed name, its donations are the single donation of that amount dated by the first
  clock reading, \<^verbatim>\<open>created\<close> is the text of the second clock reading, and \<^verbatim>\<open>user_id\<close> is
  the MD5 digest of \<^verbatim>\<open>full_name\<close> followed by \<^verbatim>\<open>created\<close>.
\<close>

theorem new_donor_construction:
  assumes "parse_name (safe_input name) = Inr parsed" and "first_name parsed \<noteq> []"
    and "snd (match_existing (donors st) 0 parsed None) = None"
    and "py_lower (safe_input amt) \<notin> set [''q'', ''quit'']"
    and "py_float (safe_input amt) = Inr a"
    and "stdin st = name # amt # rest"
  shows "fst (thank_you_body e st) = Continue
    \<and> donors (snd (thank_you_body e st))
      = donors st
        @ [\<lparr>full_name = full_name parsed, informal_name = informal_name parsed,
            suffix = suffix parsed, last_name = last_name parsed,
            first_name = first_name parsed,
            created = utc_time e (Suc (clock st)) @ ''Z'',
            user_id = md5_hexdigest e (full_name parsed @ utc_time e (Suc (clock st)) @ ''Z''),
            donations = [\<lparr>amount = a, date = utc_date e (clock st) @ ''Z''\<rparr>]\<rparr>]
    \<and> user_id (last (donors (snd (thank_you_body e st))))
      = md5_hexdigest e (full_name (last (donors (snd (thank_you_body e st))))
                         @ created (last (donors (snd (thank_you_body e st)))))"
proof -
  note b = body_new [OF assms, of e]
  show ?thesis unfolding b by simp
qed

theorem new_donor_construction_witness:
  "parse_name (safe_input ''Jane Doe'') = Inr jane_doe
   \<and> py_float (safe_input ''12.50'') = Inr (Finite (25 / 2))
   \<and> donors (snd (thank_you_body sample_env (start [] [''Jane Doe'', ''12.50''])))
     = [\<lparr>full_name = ''Jane Doe'', informal_name = ''Jane Doe'', suffix = [],
         last_name = ''Doe'', first_name = ''Jane'',
         created = ''2017-02-14T10:00:01Z'',
         user_id = ''md5 of Jane Doe2017-02-14T10:00:01Z'',
         donations = [\<lparr>amount = Finite (25 / 2), date = ''2017-02-14Z''\<rparr>]\<rparr>]"
proof -
  let ?st = "start [] [''Jane Doe'', ''12.50'']"
  have f: "first_name jane_doe \<noteq> []" by (simp add: jane_doe_def)
  have m: "snd (match_existing (donors ?st) 0 jane_doe None) = None"
    by (simp add: start_def)
  have q: "py_lower (safe_input ''12.50'') \<notin> set [''q'', ''quit'']" by code_simp
  have a: "py_float (safe_input ''12.50'') = Inr (Finite (25 / 2))" by code_simp
  have i: "stdin ?st = ''Jane Doe'' # ''12.50'' # []" by (simp add: start_def)
  have "donors (snd (thank_you_body sample_env ?st))
     = [\<lparr>full_name = ''Jane Doe'', informal_name = ''Jane Doe'', suffix = [],
         last_name = ''Doe'', first_name = ''Jane'',
         created = ''2017-02-14T10:00:01Z'',
         user_id = ''md5 of Jane Doe2017-02-14T10:00:01Z'',
         donations = [\<lparr>amount = Finite (25 / 2), date = ''2017-02-14Z''\<rparr>]\<rparr>]"
    unfolding new_donor_construction
      [OF jane_doe_parsed f m q a i, of sample_env, THEN conjunct2, THEN conjunct1]
    by (simp add: start_def sample_env_simps digits_of_small jane_doe_def)
  with jane_doe_parsed a show ?thesis by blast
qed

section \<open>The scan for an existing donor\<close>




section \<open>Re-entering a name\<close>

lemma match_key_no_comma:
  assumes "CHR '','' \<notin> set name" and "parse_name (safe_input name) = Inr parsed"
  shows "py_strip (py_lower (full_name parsed)) = py_lower (py_strip name)"
proof -
  have nc: "CHR '','' \<notin> set (py_strip name)" using assms(1) set_py_strip by blast
  have sp: "py_split_on CHR '','' (safe_input name) = [py_strip name]"
    using nc by (simp add: safe_input_def py_split_on_nosep)
  have i: "informal_of (safe_input name) = py_title (py_strip name)"
    by (simp add: informal_of_def sp)
  have s: "suffix_of (safe_input name) = []"
    by (simp add: suffix_of_def sp)
  have "full_name parsed = py_title (py_strip name)"
    using assms(2) i s by (auto simp: parse_name_via Let_def split: if_splits)
  then show ?thesis by simp
qed

lemma append_donation_length [simp]: "length (append_donation j dn ds) = length ds"
  by (simp add: append_donation_def)

text \<open>The store \<open>two_smiths\<close> is what the four typed lines leave on an empty store.\<close>

lemma two_smiths_reached:
  "donors (snd (thank_you_entry sample_env
      (start [] [''John Smith'', ''10'', ''John Smith, Jr'', ''20''])))
   = two_smiths"
proof -
  let ?st0 = "start [] [''John Smith'', ''10'', ''John Smith, Jr'', ''20'']"
  have p1: "parse_name (safe_input ''John Smith'') = Inr john_smith" by code_simp
  have p2: "parse_name (safe_input ''John Smith, Jr'') = Inr john_smith_jr" by code_simp
  have f1: "first_name john_smith \<noteq> []" by (simp add: john_smith_def)
  have f2: "first_name john_smith_jr \<noteq> []" by (simp add: john_smith_jr_def)
  have q1: "py_lower (safe_input ''10'') \<notin> set [''q'', ''quit'']" by code_simp
  have q2: "py_lower (safe_input ''20'') \<notin> set [''q'', ''quit'']" by code_simp
  have a1: "py_float (safe_input ''10'') = Inr (Finite 10)" by code_simp
  have a2: "py_float (safe_input ''20'') = Inr (Finite 20)" by code_simp
  have m1: "snd (match_existing (donors ?st0) 0 john_smith None) = None"
    by (simp add: start_def)
  have i1: "stdin ?st0 = ''John Smith'' # ''10'' # [''John Smith, Jr'', ''20'']"
    by (simp add: start_def)
  note b1 = body_new [OF p1 f1 m1 q1 a1 i1, of sample_env]
  let ?st1 = "snd (thank_you_body sample_env ?st0)"
  have d1: "donors ?st1 = [two_smiths ! 0]"
    unfolding b1
    by (simp add: start_def sample_env_simps digits_of_small two_smiths_def john_smith_def)
  have m2: "snd (match_existing (donors ?st1) 0 john_smith_jr None) = None"
    unfolding d1 by code_simp
  have i2: "stdin ?st1 = ''John Smith, Jr'' # ''20'' # []" unfolding b1 by simp
  have c1: "clock ?st1 = 2" unfolding b1 by (simp add: start_def)
  note b2 = body_new [OF p2 f2 m2 q2 a2 i2, of sample_env]
  let ?st2 = "snd (thank_you_body sample_env ?st1)"
  have d2: "donors ?st2 = two_smiths"
    unfolding b2
    by (simp add: d1 c1 sample_env_simps digits_of_small two_smiths_def john_smith_jr_def)
  have i3: "stdin ?st2 = []" unfolding b2 by simp
  have "thank_you_entry sample_env ?st0 = thank_you_entry sample_env ?st1"
    by (rule thank_you_entry_continue) (simp add: b1)
  also have "\<dots> = thank_you_entry sample_env ?st2"
    by (rule thank_you_entry_continue) (simp add: b2)
  also have "\<dots> = (Pending, ?st2\<lparr>stdout := stdout ?st2 @ [[], [], entry_menu]\<rparr>)"
    by (rule thank_you_entry_stop) (rule body_no_input [OF i3])
  finally show ?thesis using d2 by simp
qed

text \<open>
  What the scan does achieve: when a name is entered without a comma and some stored
  donor's \<^verbatim>\<open>first last\<close> equals it up to letter case and surrounding white space, a valid
  amount is appended to a stored donor and no record is created.
\<close>

lemma reentry_appends_to_stored_donor:
  assumes "parse_name (safe_input name) = Inr parsed" and "first_name parsed \<noteq> []"
    and "CHR '','' \<notin> set name"
    and "d \<in> set (donors st)"
    and "py_strip (py_lower (first_name d @ '' '' @ last_name d)) = py_lower (py_strip name)"
    and "py_lower (safe_input amt) \<notin> set [''q'', ''quit'']"
    and "py_float (safe_input amt) = Inr a"
    and "stdin st = name # amt # rest"
  shows "py_strip (py_lower (full_name parsed)) = py_lower (py_strip name)
    \<and> fst (thank_you_body e st) = Continue
    \<and> (\<exists>j<length (donors st).
          donors (snd (thank_you_body e st))
          = append_donation j \<lparr>amount = a, date = utc_date e (clock st) @ ''Z''\<rparr> (donors st))
    \<and> length (donors (snd (thank_you_body e st))) = length (donors st)"
proof -
  have key: "py_strip (py_lower (full_name parsed)) = py_lower (py_strip name)"
    by (rule match_key_no_comma [OF assms(3,1)])
  have "name_matches d parsed"
    using assms(5) key by (simp add: name_matches_def Let_def)
  with assms(4) have some: "\<not> (\<forall>x\<in>set (donors st). \<not> name_matches x parsed)" by blast
  obtain cur did where m: "match_existing (donors st) 0 parsed None = (cur, did)"
    by (cases "match_existing (donors st) 0 parsed None")
  from match_existing_spec [OF m] some
  obtain j where j: "j < length (donors st)" "did = Some j" by auto
  note b = body_existing [OF assms(1,2) m [unfolded j(2)] assms(6,7,8), of e]
  have "\<exists>j<length (donors st).
          donors (snd (thank_you_body e st))
          = append_donation j \<lparr>amount = a, date = utc_date e (clock st) @ ''Z''\<rparr> (donors st)"
    using j(1) unfolding b by auto
  moreover have "fst (thank_you_body e st) = Continue" unfolding b by simp
  moreover have "length (donors (snd (thank_you_body e st))) = length (donors st)"
    unfolding b by simp
  ultimately show ?thesis using key by blast
qed

lemma reentry_appends_to_stored_donor_example:
  "parse_name (safe_input ''  JOHN smith '') = Inr john_smith
   \<and> py_strip (py_lower (first_name (two_smiths ! 0) @ '' '' @ last_name (two_smiths ! 0)))
     = py_lower (py_strip ''  JOHN smith '')
   \<and> py_float (safe_input ''5'') = Inr (Finite 5)
   \<and> length (donors (snd (thank_you_body sample_env
        (start two_smiths [''  JOHN smith '', ''5''])))) = 2"
proof -
  let ?st = "start two_smiths [''  JOHN smith '', ''5'']"
  have p: "parse_name (safe_input ''  JOHN smith '') = Inr john_smith" by code_simp
  have f: "first_name john_smith \<noteq> []" by (simp add: john_smith_def)
  have nc: "CHR '','' \<notin> set ''  JOHN smith ''" by simp
  have d: "two_smiths ! 0 \<in> set (donors ?st)" by (simp add: start_def two_smiths_def)
  have k: "py_strip (py_lower (first_name (two_smiths ! 0) @ '' '' @ last_name (two_smiths ! 0)))
     = py_lower (py_strip ''  JOHN smith '')"
    by code_simp
  have q: "py_lower (safe_input ''5'') \<notin> set [''q'', ''quit'']" by code_simp
  have a: "py_float (safe_input ''5'') = Inr (Finite 5)" by code_simp
  have i: "stdin ?st = ''  JOHN smith '' # ''5'' # []" by (simp add: start_def)
  have l: "length (donors ?st) = 2" by (simp add: start_def two_smiths_def)
  from reentry_appends_to_stored_donor [OF p f nc d k q a i, of sample_env] p k a l
  show ?thesis by simp
qed

text \<open>
  Claim C1.  Re-entering the name of a stored donor, in another letter case, with other
  surrounding white space, or with or without a suffix, resolves to that donor, so the
  store holds one record per normalized name.  The code does not keep this for a name with
  a suffix: the stored side of the comparison is \<^verbatim>\<open>first_name + " " + last_name\<close>, the
  entered side is \<^verbatim>\<open>full_name\<close> with the suffix in it, and the two never agree.  Typing
  \<^verbatim>\<open>John Smith, Jr\<close>, \<^verbatim>\<open>10\<close> and then the very same name again with \<^verbatim>\<open>20\<close> leaves two
  records for John Smith, JR, each with one donation.
\<close>

theorem suffixed_name_entered_twice:
  "donors (snd (thank_you_entry sample_env
      (start [] [''John Smith, Jr'', ''10'', ''John Smith, Jr'', ''20''])))
   = two_juniors
   \<and> map full_name two_juniors = [''John Smith, JR'', ''John Smith, JR'']
   \<and> map (length \<circ> donations) two_juniors = [1, 1]"
proof -
  let ?st0 = "start [] [''John Smith, Jr'', ''10'', ''John Smith, Jr'', ''20'']"
  have p: "parse_name (safe_input ''John Smith, Jr'') = Inr john_smith_jr" by code_simp
  have f: "first_name john_smith_jr \<noteq> []" by (simp add: john_smith_jr_def)
  have q1: "py_lower (safe_input ''10'') \<notin> set [''q'', ''quit'']" by code_simp
  have q2: "py_lower (safe_input ''20'') \<notin> set [''q'', ''quit'']" by code_simp
  have a1: "py_float (safe_input ''10'') = Inr (Finite 10)" by code_simp
  have a2: "py_float (safe_input ''20'') = Inr (Finite 20)" by code_simp
  have m1: "snd (match_existing (donors ?st0) 0 john_smith_jr None) = None"
    by (simp add: start_def)
  have i1: "stdin ?st0 = ''John Smith, Jr'' # ''10'' # [''John Smith, Jr'', ''20'']"
    by (simp add: start_def)
  note b1 = body_new [OF p f m1 q1 a1 i1, of sample_env]
  let ?st1 = "snd (thank_you_body sample_env ?st0)"
  have d1: "donors ?st1 = [two_juniors ! 0]"
    unfolding b1
    by (simp add: start_def sample_env_simps digits_of_small two_juniors_def john_smith_jr_def)
  have m2: "snd (match_existing (donors ?st1) 0 john_smith_jr None) = None"
    unfolding d1 by code_simp
  have i2: "stdin ?st1 = ''John Smith, Jr'' # ''20'' # []" unfolding b1 by simp
  have c1: "clock ?st1 = 2" unfolding b1 by (simp add: start_def)
  note b2 = body_new [OF p f m2 q2 a2 i2, of sample_env]
  let ?st2 = "snd (thank_you_body sample_env ?st1)"
  have d2: "donors ?st2 = two_juniors"
    unfolding b2
    by (simp add: d1 c1 sample_env_simps digits_of_small two_juniors_def john_smith_jr_def)
  have i3: "stdin ?st2 = []" unfolding b2 by simp
  have "thank_you_entry sample_env ?st0 = thank_you_entry sample_env ?st1"
    by (rule thank_you_entry_continue) (simp add: b1)
  also have "\<dots> = thank_you_entry sample_env ?st2"
    by (rule thank_you_entry_continue) (simp add: b2)
  also have "\<dots> = (Pending, ?st2\<lparr>stdout := stdout ?st2 @ [[], [], entry_menu]\<rparr>)"
    by (rule thank_you_entry_stop) (rule body_no_input [OF i3])
  finally have "donors (snd (thank_you_entry sample_env ?st0)) = two_juniors"
    using d2 by simp
  then show ?thesis by (simp add: two_juniors_def)
qed

end
